theory Spec2Isabelle
  imports Main
begin

section \<open>Strings\<close>

text \<open>
  A JavaScript string is a sequence of code units. Here a string is a list of
  \<open>char\<close>, each standing for the code unit of the same number, so the
  model covers text whose code units lie below 256 (\<open>CHR 0xE8\<close> is the
  letter e with a grave accent).
\<close>

section \<open>Validation messages\<close>

text \<open>
  The interface \<open>ValidationMessage\<close> of the editor: a message kind
  (\<open>'error' | 'success' | 'warning'\<close>) and its text.
\<close>

datatype msg_type = Error | Success | Warning

record ValidationMessage =
  mtype :: msg_type
  message :: string

definition mk_error :: "string \<Rightarrow> ValidationMessage" where
  "mk_error s = \<lparr>mtype = Error, message = s\<rparr>"

definition mk_success :: "string \<Rightarrow> ValidationMessage" where
  "mk_success s = \<lparr>mtype = Success, message = s\<rparr>"

section \<open>The DOM tree handed back by the XML parser\<close>

text \<open>
  An element carries an optional namespace prefix, a local name, an optional
  namespace URI, its attributes and its ordered children; a text node carries
  its character data. The qualified name (\<open>tagName\<close>) of an element is its
  local name, preceded by the prefix and a colon when there is a prefix.
  Properties that a text node does not have read as \<open>None\<close> (JavaScript's
  \<open>undefined\<close>).
\<close>

datatype node =
    Element "string option" string "string option" "(string \<times> string) list" "node list"
  | Text string

fun isElement :: "node \<Rightarrow> bool" where
  "isElement (Element p l ns as cs) = True"
| "isElement (Text t) = False"

fun tagName :: "node \<Rightarrow> string option" where
  "tagName (Element p l ns as cs) =
     Some (case p of None \<Rightarrow> l | Some q \<Rightarrow> q @ '':'' @ l)"
| "tagName (Text t) = None"

fun localName :: "node \<Rightarrow> string option" where
  "localName (Element p l ns as cs) = Some l"
| "localName (Text t) = None"

fun namespaceURI :: "node \<Rightarrow> string option" where
  "namespaceURI (Element p l ns as cs) = ns"
| "namespaceURI (Text t) = None"


text \<open>All nodes strictly below a node, in document (pre-order) order.\<close>

fun descendants :: "node \<Rightarrow> node list" where
  "descendants (Element p l ns as cs) = concat (map (\<lambda>c. c # descendants c) cs)"
| "descendants (Text t) = []"

definition matchesName :: "string \<Rightarrow> node \<Rightarrow> bool" where
  "matchesName name d = (isElement d \<and> (name = ''*'' \<or> tagName d = Some name))"

text \<open>
  \<open>element.getElementsByTagName(name)\<close>: the descendant elements of
  \<open>element\<close> whose qualified name is \<open>name\<close>, in document order
  (\<open>*\<close> matches every element). The element itself is not included.
\<close>

definition getElementsByTagName :: "node \<Rightarrow> string \<Rightarrow> node list" where
  "getElementsByTagName e name = filter (matchesName name) (descendants e)"

text \<open>A parsed document: its document element, if any.\<close>

record xml_doc =
  documentElement :: "node option"

text \<open>
  \<open>document.getElementsByTagName(name)\<close> searches the whole document, the
  document element included.
\<close>

definition doc_getElementsByTagName :: "xml_doc \<Rightarrow> string \<Rightarrow> node list" where
  "doc_getElementsByTagName d name =
     (case documentElement d of
        None \<Rightarrow> []
      | Some r \<Rightarrow> filter (matchesName name) (r # descendants r))"

text \<open>\<open>collection[0]\<close>: the first item, \<open>undefined\<close> on an empty collection.\<close>

fun item0 :: "'a list \<Rightarrow> 'a option" where
  "item0 [] = None"
| "item0 (x # xs) = Some x"

section \<open>Structural validation (\<open>validateTEI\<close>)\<close>

definition TEI_NS :: string where
  "TEI_NS = ''http://www.tei-c.org/ns/1.0''"

definition rootError :: ValidationMessage where
  "rootError = mk_error ''L'elemento radice deve essere <TEI>''"

definition namespaceError :: ValidationMessage where
  "namespaceError = mk_error ''Namespace TEI mancante o non corretto''"

definition teiHeaderError :: ValidationMessage where
  "teiHeaderError = mk_error ''Elemento <teiHeader> mancante''"

definition textError :: ValidationMessage where
  "textError = mk_error ''Elemento <text> mancante''"

definition fileDescError :: ValidationMessage where
  "fileDescError = mk_error ''Elemento <fileDesc> mancante in teiHeader''"

definition inFileDescError :: "string \<Rightarrow> ValidationMessage" where
  "inFileDescError elem = mk_error (''Elemento <'' @ elem @ ''> mancante in fileDesc'')"

definition titleError :: ValidationMessage where
  "titleError = mk_error ''Elemento <title> mancante in titleStmt''"

definition bodyError :: ValidationMessage where
  "bodyError = mk_error ''Elemento <body> mancante in text''"

definition combinedError :: ValidationMessage where
  "combinedError = mk_error ''Elementi obbligatori mancanti (teiHeader o text)''"

definition conformsMessage :: ValidationMessage where
  "conformsMessage =
     mk_success (''Il documento '' @ [CHR 0xE8] @ '' conforme alle specifiche TEI'')"

definition requiredInFileDesc :: "string list" where
  "requiredInFileDesc = [''titleStmt'', ''publicationStmt'', ''sourceDesc'']"

text \<open>\<open>messages.push(m)\<close>.\<close>

definition push :: "ValidationMessage list \<Rightarrow> ValidationMessage \<Rightarrow> ValidationMessage list" where
  "push messages m = messages @ [m]"

text \<open>
  The \<open>forEach\<close> over \<open>requiredInFileDesc\<close>: one message for each listed
  element that \<open>fileDesc\<close> does not contain.
\<close>

fun checkRequired :: "node \<Rightarrow> string list \<Rightarrow> ValidationMessage list \<Rightarrow> ValidationMessage list" where
  "checkRequired fileDesc [] messages = messages"
| "checkRequired fileDesc (elem # elems) messages =
     checkRequired fileDesc elems
       (if item0 (getElementsByTagName fileDesc elem) = None
        then push messages (inFileDescError elem) else messages)"

text \<open>The block guarded by \<open>if (teiHeader)\<close>.\<close>

definition checkHeader :: "node option \<Rightarrow> ValidationMessage list \<Rightarrow> ValidationMessage list" where
  "checkHeader teiHeader messages =
     (case teiHeader of
        None \<Rightarrow> messages
      | Some h \<Rightarrow>
          (case item0 (getElementsByTagName h ''fileDesc'') of
             None \<Rightarrow> push messages fileDescError
           | Some fileDesc \<Rightarrow>
               (let messages = checkRequired fileDesc requiredInFileDesc messages;
                    titleStmt = item0 (getElementsByTagName fileDesc ''titleStmt'')
                in case titleStmt of
                     None \<Rightarrow> messages
                   | Some ts \<Rightarrow>
                       if item0 (getElementsByTagName ts ''title'') = None
                       then push messages titleError else messages)))"

text \<open>The statement \<open>if (text && !text.getElementsByTagName('body')[0])\<close>.\<close>

definition checkText :: "node option \<Rightarrow> ValidationMessage list \<Rightarrow> ValidationMessage list" where
  "checkText text messages =
     (case text of
        None \<Rightarrow> messages
      | Some t \<Rightarrow>
          if item0 (getElementsByTagName t ''body'') = None
          then push messages bodyError else messages)"

text \<open>
  The body of the \<open>try\<close> block of \<open>validateTEI\<close> in the component
  \<open>TEIEditor\<close>, from the parsed document to the message list that is
  displayed.
\<close>

definition TEIEditor_validate :: "xml_doc \<Rightarrow> ValidationMessage list" where
  "TEIEditor_validate xmlDoc =
     (let messages = [] in
      case documentElement xmlDoc of
        None \<Rightarrow> push messages rootError
      | Some tei \<Rightarrow>
          if tagName tei \<noteq> Some ''TEI'' then push messages rootError
          else
            let messages = (if namespaceURI tei \<noteq> Some TEI_NS
                            then push messages namespaceError else messages);
                teiHeader = item0 (getElementsByTagName tei ''teiHeader'');
                text = item0 (getElementsByTagName tei ''text'');
                messages = (if teiHeader = None then push messages teiHeaderError else messages);
                messages = (if text = None then push messages textError else messages);
                messages = checkHeader teiHeader messages;
                messages = checkText text messages;
                messages = (if length messages = 0
                            then push messages conformsMessage else messages)
            in messages)"

text \<open>The same block in the component \<open>App\<close>, which stops at the top-level children.\<close>

definition App_validate :: "xml_doc \<Rightarrow> ValidationMessage list" where
  "App_validate xmlDoc =
     (let messages = [] in
      case documentElement xmlDoc of
        None \<Rightarrow> push messages rootError
      | Some tei \<Rightarrow>
          if tagName tei \<noteq> Some ''TEI'' then push messages rootError
          else
            let messages = (if namespaceURI tei \<noteq> Some TEI_NS
                            then push messages namespaceError else messages);
                teiHeader = item0 (getElementsByTagName tei ''teiHeader'');
                text = item0 (getElementsByTagName tei ''text'');
                messages = (if teiHeader = None \<or> text = None
                            then push messages combinedError else messages);
                messages = (if length messages = 0
                            then push messages conformsMessage else messages)
            in messages)"

text \<open>
  The XML parser of the browser is outside the program. A call
  \<open>parser.parseFromString(s, "text/xml")\<close> either throws (\<open>Inl\<close>, with the
  message of the exception) or returns a document (\<open>Inr\<close>); for malformed
  input the returned document contains a \<open>parsererror\<close> element, which is
  what the program itself tests for in \<open>validateXMLSyntax\<close> and \<open>formatXML\<close>.
\<close>

type_synonym dom_parser = "string \<Rightarrow> string + xml_doc"

definition hasParserError :: "xml_doc \<Rightarrow> bool" where
  "hasParserError xmlDoc = (length (doc_getElementsByTagName xmlDoc ''parsererror'') > 0)"

definition parseFails :: "dom_parser \<Rightarrow> string \<Rightarrow> bool" where
  "parseFails parseFromString s =
     (case parseFromString s of Inl e \<Rightarrow> True | Inr xmlDoc \<Rightarrow> hasParserError xmlDoc)"

definition validationFailure :: "string \<Rightarrow> ValidationMessage" where
  "validationFailure e = mk_error (''Errore durante la validazione TEI: '' @ e)"

text \<open>\<open>validateTEI\<close> as a function of the document text: the list passed to
  \<open>setValidationMessages\<close>.\<close>

definition TEIEditor_validateTEI :: "dom_parser \<Rightarrow> string \<Rightarrow> ValidationMessage list" where
  "TEIEditor_validateTEI parseFromString xmlContent =
     (case parseFromString xmlContent of
        Inl e \<Rightarrow> [validationFailure e]
      | Inr xmlDoc \<Rightarrow> TEIEditor_validate xmlDoc)"

definition App_validateTEI :: "dom_parser \<Rightarrow> string \<Rightarrow> ValidationMessage list" where
  "App_validateTEI parseFromString xmlContent =
     (case parseFromString xmlContent of
        Inl e \<Rightarrow> [validationFailure e]
      | Inr xmlDoc \<Rightarrow> App_validate xmlDoc)"

section \<open>Syntax validation (\<open>validateXMLSyntax\<close>)\<close>

text \<open>\<open>node.textContent\<close>: the character data below a node, in document order.\<close>

fun textContent :: "node \<Rightarrow> string" where
  "textContent (Element p l ns as cs) = concat (map textContent cs)"
| "textContent (Text t) = t"

definition validateXMLSyntax :: "dom_parser \<Rightarrow> string \<Rightarrow> ValidationMessage list \<times> bool" where
  "validateXMLSyntax parseFromString xmlContent =
     (case parseFromString xmlContent of
        Inl e \<Rightarrow> ([mk_error (''Errore di parsing XML: '' @ e)], False)
      | Inr xmlDoc \<Rightarrow>
          (case doc_getElementsByTagName xmlDoc ''parsererror'' of
             pe # rest \<Rightarrow>
               ([mk_error (if textContent pe = [] then ''Errore di parsing XML''
                           else textContent pe)], False)
           | [] \<Rightarrow>
               ([mk_success (''La sintassi XML '' @ [CHR 0xE8] @ '' valida'')], True)))"

section \<open>The normalisation pass of \<open>formatXML\<close>\<close>

text \<open>
  The class \<open>\s\<close> of a JavaScript regular expression (white space and line
  terminators; \<open>trim\<close> strips the same code units), and the line terminators,
  which \<open>.\<close> does not match.
\<close>

definition isSpace :: "char \<Rightarrow> bool" where
  "isSpace c = (c \<in> set [CHR 0x09, CHR 0x0A, CHR 0x0B, CHR 0x0C, CHR 0x0D, CHR 0x20, CHR 0xA0])"

definition isLineTerminator :: "char \<Rightarrow> bool" where
  "isLineTerminator c = (c \<in> set [CHR 0x0A, CHR 0x0D])"

text \<open>
  \<open>.replace(/(>)(<)(\/*)/g, '$1\n$2$3')\<close>: a match is a \<open>>\<close>, the
  \<open><\<close> right behind it and the run of slashes that follows; it is written
  back with a line feed between the first two, and the search goes on behind
  the match.
\<close>

function breakTags :: "string \<Rightarrow> string" where
  "breakTags [] = []"
| "breakTags [c] = [c]"
| "breakTags (c # d # cs) =
     (if c = CHR ''>'' \<and> d = CHR ''<''
      then [CHR ''>'', CHR 0x0A, CHR ''<''] @ takeWhile (\<lambda>x. x = CHR ''/'') cs
             @ breakTags (dropWhile (\<lambda>x. x = CHR ''/'') cs)
      else c # breakTags (d # cs))"
  by pat_completeness auto
termination
  by (relation "measure length") (auto simp: length_dropWhile_le less_Suc_eq_le le_SucI)

text \<open>\<open>.replace(/\s+/g, ' ')\<close>: every maximal run of white space becomes one space.\<close>

function collapseSpaces :: "string \<Rightarrow> string" where
  "collapseSpaces [] = []"
| "collapseSpaces (c # cs) =
     (if isSpace c then CHR 0x20 # collapseSpaces (dropWhile isSpace cs)
      else c # collapseSpaces cs)"
  by pat_completeness auto
termination
  by (relation "measure length") (auto simp: length_dropWhile_le less_Suc_eq_le)

text \<open>
  The lazy \<open>(.*?)>\<close> behind a \<open><\<close>: the text up to the first \<open>>\<close>, and the
  rest behind it, provided no line terminator comes before that \<open>>\<close>.
\<close>

fun findClose :: "string \<Rightarrow> (string \<times> string) option" where
  "findClose [] = None"
| "findClose (d # ds) =
     (if d = CHR ''>'' then Some ([], ds)
      else if isLineTerminator d then None
      else (case findClose ds of
              None \<Rightarrow> None
            | Some (inner, rest) \<Rightarrow> Some (d # inner, rest)))"

text \<open>
  \<open>.replace(/<(.*?)>/g, match => match.replace(/\s+/g, ' '))\<close>: each match
  has its white space collapsed; a \<open><\<close> that starts no match is copied.
\<close>

function collapseTags :: "string \<Rightarrow> string" where
  "collapseTags [] = []"
| "collapseTags (c # cs) =
     (if c = CHR ''<'' then
        (case findClose cs of
           Some (inner, rest) \<Rightarrow>
             collapseSpaces (CHR ''<'' # inner @ [CHR ''>'']) @ collapseTags rest
         | None \<Rightarrow> c # collapseTags cs)
      else c # collapseTags cs)"
  by pat_completeness auto
termination
proof (relation "measure length")
  show "wf (measure length)" by simp
next
  fix c :: char and cs inner rest :: string and x :: "string \<times> string"
  assume "c = CHR ''<''" and "findClose cs = Some x" and "(inner, rest) = x"
  then have f: "findClose cs = Some (inner, rest)" by simp
  have "length r < length ds" if "findClose ds = Some (i, r)" for ds i r
    using that by (induction ds arbitrary: i) (auto split: if_splits option.splits)
  from this [OF f] show "(rest, c # cs) \<in> measure length" by simp
next
  fix c :: char and cs :: string
  assume "c = CHR ''<''" and "findClose cs = None"
  then show "(cs, c # cs) \<in> measure length" by simp
next
  fix c :: char and cs :: string
  assume "c \<noteq> CHR ''<''"
  then show "(cs, c # cs) \<in> measure length" by simp
qed

text \<open>\<open>.split('\n')\<close>, \<open>line.trim()\<close> and \<open>.join('\n')\<close>.\<close>

fun splitLines :: "string \<Rightarrow> string list" where
  "splitLines [] = [[]]"
| "splitLines (c # cs) =
     (if c = CHR 0x0A then [] # splitLines cs
      else (case splitLines cs of
              [] \<Rightarrow> [[c]]
            | l # ls \<Rightarrow> (c # l) # ls))"

definition trim :: "string \<Rightarrow> string" where
  "trim s = rev (dropWhile isSpace (rev (dropWhile isSpace s)))"

fun joinLines :: "string list \<Rightarrow> string" where
  "joinLines [] = []"
| "joinLines [l] = l"
| "joinLines (l # ls) = l @ CHR 0x0A # joinLines ls"

definition normalise :: "string \<Rightarrow> string" where
  "normalise serialized =
     joinLines (map trim (splitLines (collapseTags (breakTags serialized))))"

text \<open>No \<open>>\<close> stands right before a \<open><\<close>.\<close>

fun noAdj :: "string \<Rightarrow> bool" where
  "noAdj [] = True"
| "noAdj [c] = True"
| "noAdj (c # d # cs) = (\<not> (c = CHR ''>'' \<and> d = CHR ''<'') \<and> noAdj (d # cs))"

section \<open>The editor state: document buffer, messages and history\<close>

text \<open>
  \<open>xmlContent\<close> and \<open>validationMessages\<close> are the component's state,
  \<open>historyRef\<close> and \<open>currentIndexRef\<close> its two reference cells. The buffer
  is \<open>None\<close> when it holds \<open>undefined\<close>, which is what an index outside
  the history array reads. The cursor is a JavaScript number, here an integer.
\<close>

record editor_state =
  xmlContent :: "string option"
  validationMessages :: "ValidationMessage list"
  historyRef :: "string list"
  currentIndexRef :: int

text \<open>\<open>array[i]\<close>: \<open>undefined\<close> outside the array.\<close>

definition index :: "'a list \<Rightarrow> int \<Rightarrow> 'a option" where
  "index xs i = (if 0 \<le> i \<and> i < int (length xs) then Some (xs ! nat i) else None)"

text \<open>
  \<open>array.slice(0, end)\<close>: a negative \<open>end\<close> counts from the end of the
  array, and the result stays within the array.
\<close>

definition slice0 :: "'a list \<Rightarrow> int \<Rightarrow> 'a list" where
  "slice0 xs e =
     (let len = int (length xs);
          final = (if e < 0 then max (len + e) 0 else min e len)
      in take (nat final) xs)"

text \<open>The initial state of the component: the history holds the starting text.\<close>

definition init :: "string \<Rightarrow> editor_state" where
  "init initial =
     \<lparr>xmlContent = Some initial, validationMessages = [],
      historyRef = [initial], currentIndexRef = 0\<rparr>"

definition addToHistory :: "string \<Rightarrow> editor_state \<Rightarrow> editor_state" where
  "addToHistory content st =
     (let newHistory = slice0 (historyRef st) (currentIndexRef st + 1) @ [content]
      in st\<lparr>historyRef := newHistory, currentIndexRef := int (length newHistory) - 1\<rparr>)"

definition undo :: "editor_state \<Rightarrow> editor_state" where
  "undo st =
     (if currentIndexRef st > 0 then
        (let i = currentIndexRef st - 1
         in st\<lparr>currentIndexRef := i, xmlContent := index (historyRef st) i\<rparr>)
      else st)"

definition redo :: "editor_state \<Rightarrow> editor_state" where
  "redo st =
     (if currentIndexRef st < int (length (historyRef st)) - 1 then
        (let i = currentIndexRef st + 1
         in st\<lparr>currentIndexRef := i, xmlContent := index (historyRef st) i\<rparr>)
      else st)"

definition handleContentChange :: "string \<Rightarrow> editor_state \<Rightarrow> editor_state" where
  "handleContentChange newContent st = addToHistory newContent (st\<lparr>xmlContent := Some newContent\<rparr>)"

text \<open>
  A buffer that holds \<open>undefined\<close> reaches the parser as the string
  \<open>undefined\<close>.
\<close>

definition domString :: "string option \<Rightarrow> string" where
  "domString v = (case v of None \<Rightarrow> ''undefined'' | Some s \<Rightarrow> s)"

definition syntaxFirst :: string where
  "syntaxFirst = ''Correggi prima gli errori di sintassi XML''"

text \<open>
  \<open>formatXML\<close>. The serialiser of the browser is a parameter, like the
  parser. A thrown exception, and the one the function throws itself when the
  parsed document has a \<open>parsererror\<close> element, end in the \<open>catch\<close>
  block, which only sets the messages.
\<close>

definition formatXML :: "dom_parser \<Rightarrow> (xml_doc \<Rightarrow> string) \<Rightarrow> editor_state \<Rightarrow> editor_state" where
  "formatXML parseFromString serializeToString st =
     (case parseFromString (domString (xmlContent st)) of
        Inl e \<Rightarrow> st\<lparr>validationMessages := [mk_error e]\<rparr>
      | Inr xmlDoc \<Rightarrow>
          if length (doc_getElementsByTagName xmlDoc ''parsererror'') > 0
          then st\<lparr>validationMessages := [mk_error syntaxFirst]\<rparr>
          else
            (let formatted = normalise (serializeToString xmlDoc);
                 st = st\<lparr>xmlContent := Some formatted\<rparr>;
                 st = addToHistory formatted st
             in st\<lparr>validationMessages := [mk_success ''Documento formattato correttamente'']\<rparr>))"

text \<open>\<open>validateTEI\<close> as a step of the editor: only the messages change.\<close>

definition validateTEI :: "dom_parser \<Rightarrow> editor_state \<Rightarrow> editor_state" where
  "validateTEI parseFromString st =
     st\<lparr>validationMessages := TEIEditor_validateTEI parseFromString (domString (xmlContent st))\<rparr>"

section \<open>The requirements of the profile, as a table\<close>

text \<open>
  The nesting rules in the words of the specification: a required element is
  looked up under its parent, and is missing when the parent is present and
  has no element of that name below it. \<open>firstIn\<close> is the element a nested
  requirement is checked on.
\<close>

fun firstIn :: "node option \<Rightarrow> string \<Rightarrow> node option" where
  "firstIn None name = None"
| "firstIn (Some e) name = item0 (getElementsByTagName e name)"

fun missingIn :: "node option \<Rightarrow> string \<Rightarrow> bool" where
  "missingIn None name = False"
| "missingIn (Some e) name = (getElementsByTagName e name = [])"

text \<open>
  Each requirement with its message, in the order of the checks: the header
  and the text under the root, the file description under the header, the
  three statements under the file description, the title under the title
  statement, the body under the text.
\<close>

definition requiredElements :: "node \<Rightarrow> (ValidationMessage \<times> bool) list" where
  "requiredElements tei =
     (let header = firstIn (Some tei) ''teiHeader'';
          text = firstIn (Some tei) ''text'';
          fileDesc = firstIn header ''fileDesc'';
          titleStmt = firstIn fileDesc ''titleStmt''
      in [(teiHeaderError, missingIn (Some tei) ''teiHeader''),
          (textError, missingIn (Some tei) ''text''),
          (fileDescError, missingIn header ''fileDesc''),
          (inFileDescError ''titleStmt'', missingIn fileDesc ''titleStmt''),
          (inFileDescError ''publicationStmt'', missingIn fileDesc ''publicationStmt''),
          (inFileDescError ''sourceDesc'', missingIn fileDesc ''sourceDesc''),
          (titleError, missingIn titleStmt ''title''),
          (bodyError, missingIn text ''body'')])"

definition nestingRules :: "node \<Rightarrow> (ValidationMessage \<times> bool) list" where
  "nestingRules tei = (namespaceError, namespaceURI tei \<noteq> Some TEI_NS) # requiredElements tei"

text \<open>The reduced profile: one message for a missing header or text.\<close>

definition reducedRequired :: "node \<Rightarrow> (ValidationMessage \<times> bool) list" where
  "reducedRequired tei =
     [(combinedError, missingIn (Some tei) ''teiHeader'' \<or> missingIn (Some tei) ''text'')]"

definition reducedRules :: "node \<Rightarrow> (ValidationMessage \<times> bool) list" where
  "reducedRules tei = (namespaceError, namespaceURI tei \<noteq> Some TEI_NS) # reducedRequired tei"

text \<open>The messages of the rules that are violated, in the order of the table.\<close>

definition reported :: "(ValidationMessage \<times> bool) list \<Rightarrow> ValidationMessage list" where
  "reported rules = map fst (filter snd rules)"

text \<open>
  Success purity of a message list: it has a success message exactly when it
  has no error message; with a success message it is the one conformance
  message; without one it is a non-empty list of error messages.
\<close>

definition successPurity :: "ValidationMessage list \<Rightarrow> bool" where
  "successPurity ms =
     (((\<exists>m \<in> set ms. mtype m = Success) \<longleftrightarrow> (\<forall>m \<in> set ms. mtype m \<noteq> Error))
      \<and> ((\<exists>m \<in> set ms. mtype m = Success) \<longrightarrow> ms = [conformsMessage])
      \<and> ((\<forall>m \<in> set ms. mtype m \<noteq> Success) \<longrightarrow> ms \<noteq> [] \<and> (\<forall>m \<in> set ms. mtype m = Error)))"

text \<open>
  The root check of the validator refuses a document without document element
  and one whose document element has another qualified name than \<open>TEI\<close>.
\<close>

definition rootRejected :: "xml_doc \<Rightarrow> bool" where
  "rootRejected d =
     (case documentElement d of None \<Rightarrow> True | Some tei \<Rightarrow> tagName tei \<noteq> Some ''TEI'')"


text \<open>The same node with another namespace URI.\<close>

fun setNamespaceURI :: "string option \<Rightarrow> node \<Rightarrow> node" where
  "setNamespaceURI ns' (Element p l ns as cs) = Element p l ns' as cs"
| "setNamespaceURI ns' (Text t) = Text t"

section \<open>Sample documents\<close>

text \<open>
  An element of the TEI namespace without prefix and attributes, the minimal
  conforming document of the specification, and the same document without
  its title.
\<close>

definition tei_el :: "string \<Rightarrow> node list \<Rightarrow> node" where
  "tei_el name children = Element None name (Some TEI_NS) [] children"

definition conformingRoot :: node where
  "conformingRoot =
     tei_el ''TEI''
       [tei_el ''teiHeader''
          [tei_el ''fileDesc''
             [tei_el ''titleStmt'' [tei_el ''title'' [Text ''T'']],
              tei_el ''publicationStmt'' [],
              tei_el ''sourceDesc'' []]],
        tei_el ''text'' [tei_el ''body'' []]]"

definition untitledRoot :: node where
  "untitledRoot =
     tei_el ''TEI''
       [tei_el ''teiHeader''
          [tei_el ''fileDesc''
             [tei_el ''titleStmt'' [],
              tei_el ''publicationStmt'' [],
              tei_el ''sourceDesc'' []]],
        tei_el ''text'' [tei_el ''body'' []]]"

text \<open>
  A root with a prefix, whose local name is \<open>TEI\<close> and whose qualified
  name is \<open>tei:TEI\<close>; a document whose header lies inside its text; a
  document with two title statements, of which only the second has a title;
  and a document without namespace that lacks several required elements.
\<close>

definition prefixedRoot :: node where
  "prefixedRoot =
     Element (Some ''tei'') ''TEI'' (Some TEI_NS) []
       [Element (Some ''tei'') ''teiHeader'' (Some TEI_NS) [] [],
        Element (Some ''tei'') ''text'' (Some TEI_NS) [] []]"

definition nestedHeaderRoot :: node where
  "nestedHeaderRoot =
     tei_el ''TEI''
       [tei_el ''text''
          [tei_el ''teiHeader''
             [tei_el ''fileDesc''
                [tei_el ''titleStmt'' [tei_el ''title'' [Text ''T'']],
                 tei_el ''publicationStmt'' [],
                 tei_el ''sourceDesc'' []]],
           tei_el ''body'' []]]"

definition twoTitleStmtRoot :: node where
  "twoTitleStmtRoot =
     tei_el ''TEI''
       [tei_el ''teiHeader''
          [tei_el ''fileDesc''
             [tei_el ''titleStmt'' [],
              tei_el ''titleStmt'' [tei_el ''title'' [Text ''T'']],
              tei_el ''publicationStmt'' [],
              tei_el ''sourceDesc'' []]],
        tei_el ''text'' [tei_el ''body'' []]]"

definition sparseRoot :: node where
  "sparseRoot =
     Element None ''TEI'' None []
       [Element None ''teiHeader'' None []
          [Element None ''fileDesc'' None [] [Element None ''titleStmt'' None [] []]]]"

text \<open>
  A root without children; a root whose header and text are empty; and a
  document whose publication statement lies inside its source description.
\<close>

definition emptyRoot :: node where
  "emptyRoot = tei_el ''TEI'' []"

definition hollowRoot :: node where
  "hollowRoot = tei_el ''TEI'' [tei_el ''teiHeader'' [], tei_el ''text'' []]"

definition deepStmtRoot :: node where
  "deepStmtRoot =
     tei_el ''TEI''
       [tei_el ''teiHeader''
          [tei_el ''fileDesc''
             [tei_el ''titleStmt'' [tei_el ''title'' [Text ''T'']],
              tei_el ''sourceDesc'' [tei_el ''publicationStmt'' []]]],
        tei_el ''text'' [tei_el ''body'' []]]"

text \<open>
  Two documents that carry a \<open>parsererror\<close> element, as a parser hands
  them back for the malformed text \<open><TEI><teiHeader></TEI>\<close>: in the
  first the \<open>parsererror\<close> element is the document element, in the second
  it stands inside the root that was built before the error.
\<close>

definition errorRootDoc :: xml_doc where
  "errorRootDoc =
     \<lparr>documentElement = Some
        (Element None ''parsererror'' (Some ''http://www.mozilla.org/newlayout/xml/parsererror.xml'') []
           [Text ''XML Parsing Error: mismatched tag. Expected: </teiHeader>.'',
            Element None ''sourcetext'' (Some ''http://www.mozilla.org/newlayout/xml/parsererror.xml'') []
              [Text ''<TEI><teiHeader></TEI>'']])\<rparr>"

definition errorInsideDoc :: xml_doc where
  "errorInsideDoc =
     \<lparr>documentElement = Some
        (Element None ''TEI'' None []
           [Element None ''parsererror'' (Some ''http://www.w3.org/1999/xhtml'') []
              [Text ''error on line 1 at column 22: Opening and ending tag mismatch''],
            Element None ''teiHeader'' None [] []])\<rparr>"

lemmas sample_defs = conformingRoot_def untitledRoot_def nestedHeaderRoot_def twoTitleStmtRoot_def
  sparseRoot_def prefixedRoot_def tei_el_def errorRootDoc_def errorInsideDoc_def
  emptyRoot_def hollowRoot_def deepStmtRoot_def

lemmas validate_defs = TEIEditor_validateTEI_def App_validateTEI_def TEIEditor_validate_def
  App_validate_def getElementsByTagName_def doc_getElementsByTagName_def matchesName_def
  checkHeader_def checkText_def requiredInFileDesc_def push_def Let_def

section \<open>The validator computes the table\<close>

lemma item0_None: "item0 xs = None \<longleftrightarrow> xs = []"
  by (cases xs) simp_all

lemma checkRequired_append:
  "checkRequired f elems ms = ms @ checkRequired f elems []"
proof (induction elems arbitrary: ms)
  case Nil
  then show ?case by simp
next
  case (Cons e es)
  show ?case
    using Cons.IH [of "push ms (inFileDescError e)"] Cons.IH [of "push [] (inFileDescError e)"] Cons.IH [of ms]
    by (simp add: push_def)
qed

lemma checkRequired_reported:
  "checkRequired f elems [] = reported (map (\<lambda>e. (inFileDescError e, missingIn (Some f) e)) elems)"
proof (induction elems)
  case Nil
  then show ?case by (simp add: reported_def)
next
  case (Cons e es)
  have "checkRequired f (e # es) [] =
        (if getElementsByTagName f e = [] then [inFileDescError e] else []) @ checkRequired f es []"
    using checkRequired_append [of f es "[inFileDescError e]"]
    by (simp add: push_def item0_None)
  then show ?case using Cons.IH by (simp add: reported_def)
qed

lemma reported_append: "reported (xs @ ys) = reported xs @ reported ys"
  by (simp add: reported_def)

lemma reported_Cons: "reported ((m, b) # xs) = (if b then m # reported xs else reported xs)"
  by (simp add: reported_def)

lemma reported_Nil: "reported [] = []"
  by (simp add: reported_def)

lemma checkHeader_append: "checkHeader h ms = ms @ checkHeader h []"
  using checkRequired_append [of _ requiredInFileDesc ms]
  by (auto simp: checkHeader_def push_def Let_def split: option.splits)

lemma checkText_append: "checkText t ms = ms @ checkText t []"
  by (auto simp: checkText_def push_def split: option.splits)

lemma checkText_reported: "checkText t [] = reported [(bodyError, missingIn t ''body'')]"
  by (cases t) (simp_all add: checkText_def push_def item0_None reported_Cons reported_Nil)

lemma checkHeader_reported:
  "checkHeader h [] =
     reported [(fileDescError, missingIn h ''fileDesc''),
          (inFileDescError ''titleStmt'', missingIn (firstIn h ''fileDesc'') ''titleStmt''),
          (inFileDescError ''publicationStmt'', missingIn (firstIn h ''fileDesc'') ''publicationStmt''),
          (inFileDescError ''sourceDesc'', missingIn (firstIn h ''fileDesc'') ''sourceDesc''),
          (titleError, missingIn (firstIn (firstIn h ''fileDesc'') ''titleStmt'') ''title'')]"
proof (cases h)
  case None
  then show ?thesis by (simp add: checkHeader_def reported_Cons reported_Nil)
next
  case (Some e)
  show ?thesis
  proof (cases "getElementsByTagName e ''fileDesc''")
    case Nil
    then show ?thesis using Some
      by (simp add: checkHeader_def push_def reported_Cons reported_Nil)
  next
    case (Cons f fs)
    have t: "(case item0 (getElementsByTagName f ''titleStmt'') of
                None \<Rightarrow> []
              | Some ts \<Rightarrow> if item0 (getElementsByTagName ts ''title'') = None then [titleError] else [])
             = reported [(titleError, missingIn (firstIn (Some f) ''titleStmt'') ''title'')]"
      by (cases "getElementsByTagName f ''titleStmt''")
         (simp_all add: reported_Cons reported_Nil item0_None)
    have "checkHeader h [] = checkRequired f requiredInFileDesc []
            @ (case item0 (getElementsByTagName f ''titleStmt'') of
                None \<Rightarrow> []
              | Some ts \<Rightarrow> if item0 (getElementsByTagName ts ''title'') = None then [titleError] else [])"
      using Some Cons by (simp add: checkHeader_def push_def Let_def split: option.splits)
    also have "\<dots> = reported (map (\<lambda>e. (inFileDescError e, missingIn (Some f) e)) requiredInFileDesc)
            @ reported [(titleError, missingIn (firstIn (Some f) ''titleStmt'') ''title'')]"
      by (simp only: t checkRequired_reported)
    finally show ?thesis using Some Cons
      by (simp add: requiredInFileDesc_def reported_Cons reported_Nil)
  qed
qed

lemma TEIEditor_validate_TEI:
  assumes "documentElement d = Some tei" "tagName tei = Some ''TEI''"
  shows "TEIEditor_validate d =
           (if reported (nestingRules tei) = [] then [conformsMessage] else reported (nestingRules tei))"
proof -
  let ?h = "item0 (getElementsByTagName tei ''teiHeader'')"
  let ?t = "item0 (getElementsByTagName tei ''text'')"
  let ?m2 = "reported [(namespaceError, namespaceURI tei \<noteq> Some TEI_NS),
          (teiHeaderError, missingIn (Some tei) ''teiHeader''),
          (textError, missingIn (Some tei) ''text'')]"
  have "checkText ?t (checkHeader ?h ?m2) = ?m2 @ checkHeader ?h [] @ checkText ?t []"
    using checkText_append [of ?t "checkHeader ?h ?m2"] checkHeader_append [of ?h ?m2]
    by simp
  also have "\<dots> = reported (nestingRules tei)"
    unfolding checkHeader_reported checkText_reported reported_append [symmetric]
    by (simp add: nestingRules_def requiredElements_def Let_def)
  finally have a: "checkText ?t (checkHeader ?h ?m2) = reported (nestingRules tei)" .
  have "TEIEditor_validate d =
        (let ms = checkText ?t (checkHeader ?h ?m2) in if length ms = 0 then push ms conformsMessage else ms)"
    using assms by (simp add: TEIEditor_validate_def Let_def push_def item0_None reported_Cons reported_Nil)
  then show ?thesis unfolding a by (simp add: Let_def push_def)
qed

lemma distinct_reported: "distinct (map fst rules) \<Longrightarrow> distinct (reported rules)"
  by (simp add: reported_def distinct_map_filter)

lemma nestingRules_distinct: "distinct (map fst (nestingRules tei))"
  by (simp add: nestingRules_def requiredElements_def Let_def namespaceError_def teiHeaderError_def textError_def
      fileDescError_def inFileDescError_def titleError_def bodyError_def mk_error_def)

lemma App_validate_TEI:
  assumes "documentElement d = Some tei" "tagName tei = Some ''TEI''"
  shows "App_validate d =
           (if reported (reducedRules tei) = [] then [conformsMessage] else reported (reducedRules tei))"
  using assms
  by (simp add: App_validate_def Let_def push_def item0_None reducedRules_def reducedRequired_def reported_Cons reported_Nil)

lemma validate_no_TEI:
  assumes "case documentElement d of None \<Rightarrow> True | Some tei \<Rightarrow> tagName tei \<noteq> Some ''TEI''"
  shows "TEIEditor_validate d = [rootError]" and "App_validate d = [rootError]"
  using assms
  by (auto simp: TEIEditor_validate_def App_validate_def push_def split: option.splits)

lemma mtype_simps [simp]:
  "mtype (mk_error s) = Error" "mtype (mk_success s) = Success"
  by (simp_all add: mk_error_def mk_success_def)

lemma reported_subset: "set (reported rules) \<subseteq> fst ` set rules"
  by (auto simp: reported_def)

lemma nestingRules_errors: "\<forall>m \<in> fst ` set (nestingRules tei). mtype m = Error"
  by (simp add: nestingRules_def requiredElements_def Let_def namespaceError_def teiHeaderError_def
      textError_def fileDescError_def inFileDescError_def titleError_def bodyError_def)

lemma reducedRules_errors: "\<forall>m \<in> fst ` set (reducedRules tei). mtype m = Error"
  by (simp add: reducedRules_def reducedRequired_def namespaceError_def combinedError_def)

lemma pure_single_error: "successPurity [mk_error s]"
  by (simp add: successPurity_def)

lemma pure_errors_or_success:
  "\<forall>m \<in> set es. mtype m = Error \<Longrightarrow> successPurity (if es = [] then [conformsMessage] else es)"
  by (auto simp: successPurity_def conformsMessage_def)

lemma TEIEditor_validate_pure: "successPurity (TEIEditor_validate d)"
proof (cases "case documentElement d of None \<Rightarrow> True | Some tei \<Rightarrow> tagName tei \<noteq> Some ''TEI''")
  case True
  then show ?thesis by (simp add: validate_no_TEI rootError_def pure_single_error)
next
  case False
  then obtain tei where t: "documentElement d = Some tei" "tagName tei = Some ''TEI''"
    by (auto split: option.splits)
  show ?thesis
    unfolding TEIEditor_validate_TEI [OF t]
    using nestingRules_errors [of tei] reported_subset [of "nestingRules tei"]
    by (intro pure_errors_or_success) blast
qed

lemma App_validate_pure: "successPurity (App_validate d)"
proof (cases "case documentElement d of None \<Rightarrow> True | Some tei \<Rightarrow> tagName tei \<noteq> Some ''TEI''")
  case True
  then show ?thesis by (simp add: validate_no_TEI rootError_def pure_single_error)
next
  case False
  then obtain tei where t: "documentElement d = Some tei" "tagName tei = Some ''TEI''"
    by (auto split: option.splits)
  show ?thesis
    unfolding App_validate_TEI [OF t]
    using reducedRules_errors [of tei] reported_subset [of "reducedRules tei"]
    by (intro pure_errors_or_success) blast
qed

lemma message_defs_distinct:
  "rootError \<noteq> conformsMessage"
  "rootError \<notin> fst ` set (nestingRules tei)"
  "rootError \<notin> fst ` set (reducedRules tei)"
  by (simp_all add: nestingRules_def requiredElements_def reducedRules_def reducedRequired_def Let_def rootError_def
      conformsMessage_def namespaceError_def teiHeaderError_def combinedError_def
      textError_def fileDescError_def inFileDescError_def titleError_def bodyError_def
      mk_error_def mk_success_def)

lemma rootError_not_reported:
  "rootError \<notin> set (if reported (nestingRules tei) = [] then [conformsMessage] else reported (nestingRules tei))"
  "rootError \<notin> set (if reported (reducedRules tei) = [] then [conformsMessage] else reported (reducedRules tei))"
  using message_defs_distinct(1) message_defs_distinct(2,3) [of tei] reported_subset [of "nestingRules tei"]
    reported_subset [of "reducedRules tei"]
  by auto

lemma reported_iff:
  "distinct (map fst rules) \<Longrightarrow> (m, b) \<in> set rules \<Longrightarrow> (m \<in> set (reported rules) \<longleftrightarrow> b)"
  by (induction rules) (auto simp: reported_def rev_image_eqI)

lemma requiredElements_distinct: "distinct (map fst (requiredElements tei))"
  using nestingRules_distinct [of tei] by (simp add: nestingRules_def)

lemma namespaceError_not_required: "namespaceError \<notin> fst ` set (requiredElements tei)"
  using nestingRules_distinct [of tei] by (simp add: nestingRules_def)

lemma conformsMessage_not_rule: "conformsMessage \<notin> fst ` set (nestingRules tei)"
proof
  assume "conformsMessage \<in> fst ` set (nestingRules tei)"
  then have "mtype conformsMessage = Error" using nestingRules_errors [of tei] by blast
  then show False by (simp add: conformsMessage_def)
qed

lemma filter_reported_required:
  "filter (\<lambda>m. m \<in> fst ` set (requiredElements tei))
     (if reported (nestingRules tei) = [] then [conformsMessage] else reported (nestingRules tei))
   = reported (requiredElements tei)"
proof -
  have a: "filter (\<lambda>m. m \<in> fst ` set (requiredElements tei)) (reported (requiredElements tei))
           = reported (requiredElements tei)"
    using reported_subset [of "requiredElements tei"] by (auto simp: filter_id_conv)
  have b: "reported (nestingRules tei) = [] \<Longrightarrow> reported (requiredElements tei) = []"
    by (simp add: nestingRules_def reported_Cons split: if_splits)
  show ?thesis
    using a b conformsMessage_not_rule [of tei] namespaceError_not_required [of tei]
    by (auto simp: nestingRules_def reported_Cons)
qed

lemma rule_reported:
  assumes "documentElement d = Some tei" and "tagName tei = Some ''TEI''"
    and "(m, b) \<in> set (requiredElements tei)"
  shows "m \<in> set (TEIEditor_validate d) \<longleftrightarrow> b"
proof -
  let ?r = "reported (nestingRules tei)"
  have v: "TEIEditor_validate d = (if ?r = [] then [conformsMessage] else ?r)"
    by (rule TEIEditor_validate_TEI [OF assms(1,2)])
  from assms(3) have i: "(m, b) \<in> set (nestingRules tei)" by (simp add: nestingRules_def)
  then have "m \<noteq> conformsMessage" using conformsMessage_not_rule [of tei] by force
  then have "m \<in> set (TEIEditor_validate d) \<longleftrightarrow> m \<in> set ?r" unfolding v by simp
  then show ?thesis using reported_iff [OF nestingRules_distinct i] by simp
qed

lemma descendants_setNamespaceURI: "descendants (setNamespaceURI ns tei) = descendants tei"
  by (cases tei) simp_all

lemma requiredElements_setNamespaceURI:
  "requiredElements (setNamespaceURI ns tei) = requiredElements tei"
  by (simp add: requiredElements_def getElementsByTagName_def descendants_setNamespaceURI)

lemma tagName_setNamespaceURI: "tagName (setNamespaceURI ns tei) = tagName tei"
  by (cases tei) simp_all

lemma namespaceURI_setNamespaceURI:
  "isElement tei \<Longrightarrow> namespaceURI (setNamespaceURI ns tei) = ns"
  by (cases tei) simp_all

lemma tagName_isElement: "tagName tei = Some n \<Longrightarrow> isElement tei"
  by (cases tei) simp_all

lemma filter_errors_reported:
  "\<forall>m \<in> fst ` set rules. mtype m = Error \<Longrightarrow>
   filter (\<lambda>m. mtype m = Error) (if reported rules = [] then [conformsMessage] else reported rules)
     = reported rules"
  using reported_subset [of rules]
  by (auto simp: conformsMessage_def filter_id_conv)


lemma validationFailure_not_message:
  "validationFailure e \<noteq> rootError"
  "validationFailure e \<noteq> conformsMessage"
  "validationFailure e \<notin> fst ` set (nestingRules tei)"
  "validationFailure e \<notin> fst ` set (reducedRules tei)"
  by (simp_all add: validationFailure_def nestingRules_def requiredElements_def reducedRules_def reducedRequired_def
      Let_def rootError_def conformsMessage_def namespaceError_def teiHeaderError_def
      combinedError_def textError_def fileDescError_def inFileDescError_def titleError_def
      bodyError_def mk_error_def mk_success_def)

lemma validationFailure_not_validate:
  "validationFailure e \<notin> set (TEIEditor_validate d)"
  "validationFailure e \<notin> set (App_validate d)"
proof -
  show "validationFailure e \<notin> set (TEIEditor_validate d)"
  proof (cases "rootRejected d")
    case True
    then show ?thesis
      by (simp add: validate_no_TEI rootRejected_def validationFailure_not_message)
  next
    case False
    then obtain tei where t: "documentElement d = Some tei" "tagName tei = Some ''TEI''"
      by (auto simp: rootRejected_def split: option.splits)
    show ?thesis
      unfolding TEIEditor_validate_TEI [OF t]
      using validationFailure_not_message(2) [of e] validationFailure_not_message(3) [of e tei]
        reported_subset [of "nestingRules tei"]
      by (auto split: if_splits)
  qed
  show "validationFailure e \<notin> set (App_validate d)"
  proof (cases "rootRejected d")
    case True
    then show ?thesis
      by (simp add: validate_no_TEI rootRejected_def validationFailure_not_message)
  next
    case False
    then obtain tei where t: "documentElement d = Some tei" "tagName tei = Some ''TEI''"
      by (auto simp: rootRejected_def split: option.splits)
    show ?thesis
      unfolding App_validate_TEI [OF t]
      using validationFailure_not_message(2) [of e] validationFailure_not_message(4) [of e tei]
        reported_subset [of "reducedRules tei"]
      by (auto split: if_splits)
  qed
qed

lemma reduced_messages_distinct:
  "combinedError \<noteq> namespaceError" "combinedError \<noteq> conformsMessage"
  by (simp_all add: combinedError_def namespaceError_def conformsMessage_def mk_error_def
      mk_success_def)

section \<open>Claims about the validator\<close>

text \<open>
  C1 (malformed input). Whenever the parser returns a document with a
  \<open>parsererror\<close> element, which is how it reports malformed input and
  what \<open>validateXMLSyntax\<close> and \<open>formatXML\<close> test for,
  \<open>validateTEI\<close> runs its checks on that document: its result is the
  result of the structural checks and never contains the message of the
  \<open>catch\<close> block. The message \<open>Errore durante la validazione TEI\<close>
  is produced only when the parser throws.
\<close>

theorem validateTEI_ignores_parsererror:
  assumes "parseFromString x = Inr xmlDoc" and "hasParserError xmlDoc"
  shows "TEIEditor_validateTEI parseFromString x = TEIEditor_validate xmlDoc
   \<and> App_validateTEI parseFromString x = App_validate xmlDoc
   \<and> (\<forall>e. validationFailure e \<notin> set (TEIEditor_validateTEI parseFromString x))
   \<and> (\<forall>e. validationFailure e \<notin> set (App_validateTEI parseFromString x))"
  using assms(1) validationFailure_not_validate [of _ xmlDoc]
  by (simp add: TEIEditor_validateTEI_def App_validateTEI_def)

theorem validateTEI_ignores_parsererror_witness:
  "hasParserError errorRootDoc
   \<and> TEIEditor_validateTEI (\<lambda>s. Inr errorRootDoc) ''<TEI><teiHeader></TEI>'' = [rootError]
   \<and> App_validateTEI (\<lambda>s. Inr errorRootDoc) ''<TEI><teiHeader></TEI>'' = [rootError]
   \<and> hasParserError errorInsideDoc
   \<and> TEIEditor_validateTEI (\<lambda>s. Inr errorInsideDoc) ''<TEI><teiHeader></TEI>''
       = [namespaceError, textError, fileDescError]
   \<and> App_validateTEI (\<lambda>s. Inr errorInsideDoc) ''<TEI><teiHeader></TEI>''
       = [namespaceError, combinedError]"
proof -
  have f: "hasParserError errorRootDoc" and c: "hasParserError errorInsideDoc"
    by (simp_all add: hasParserError_def sample_defs doc_getElementsByTagName_def matchesName_def)
  have vf: "TEIEditor_validate errorRootDoc = [rootError]" "App_validate errorRootDoc = [rootError]"
    by (simp_all add: sample_defs validate_defs)
  have vc: "TEIEditor_validate errorInsideDoc = [namespaceError, textError, fileDescError]"
    "App_validate errorInsideDoc = [namespaceError, combinedError]"
    by (simp_all add: sample_defs validate_defs)
  show ?thesis
    using validateTEI_ignores_parsererror [of "\<lambda>s. Inr errorRootDoc" "''<TEI><teiHeader></TEI>''", OF refl f]
      validateTEI_ignores_parsererror [of "\<lambda>s. Inr errorInsideDoc" "''<TEI><teiHeader></TEI>''", OF refl c]
      f c vf vc
    by simp
qed

text \<open>
  C2, as stated, fails: the root below has the local name \<open>TEI\<close>, and
  both variants of the validator answer with the root error, since they
  compare the qualified name, prefix included.
\<close>

theorem root_local_name_counterexample:
  "localName prefixedRoot = Some ''TEI''
   \<and> TEIEditor_validate \<lparr>documentElement = Some prefixedRoot\<rparr> = [rootError]
   \<and> App_validate \<lparr>documentElement = Some prefixedRoot\<rparr> = [rootError]"
  by (simp add: prefixedRoot_def TEIEditor_validate_def App_validate_def push_def)

text \<open>
  C2, amended. The root error is reported exactly when the document has no
  document element or the qualified name of the document element differs from
  \<open>TEI\<close>; in that case the result is the root error alone. This holds
  for both variants of the validator.
\<close>

theorem root_check:
  "(rootError \<in> set (TEIEditor_validate d) \<longleftrightarrow> rootRejected d)
   \<and> (rootError \<in> set (App_validate d) \<longleftrightarrow> rootRejected d)
   \<and> (rootRejected d \<longrightarrow> TEIEditor_validate d = [rootError] \<and> App_validate d = [rootError])"
proof (cases "rootRejected d")
  case True
  then show ?thesis by (simp add: validate_no_TEI rootRejected_def)
next
  case False
  then obtain tei where t: "documentElement d = Some tei" "tagName tei = Some ''TEI''"
    by (auto simp: rootRejected_def split: option.splits)
  show ?thesis
    using False rootError_not_reported [of tei]
    by (simp only: TEIEditor_validate_TEI [OF t] App_validate_TEI [OF t]) simp
qed

theorem root_check_witness:
  "rootRejected \<lparr>documentElement = Some prefixedRoot\<rparr>
   \<and> TEIEditor_validate \<lparr>documentElement = Some prefixedRoot\<rparr> = [rootError]
   \<and> \<not> rootRejected \<lparr>documentElement = Some conformingRoot\<rparr>
   \<and> rootError \<notin> set (TEIEditor_validate \<lparr>documentElement = Some conformingRoot\<rparr>)"
  using root_check [of "\<lparr>documentElement = Some prefixedRoot\<rparr>"]
    root_check [of "\<lparr>documentElement = Some conformingRoot\<rparr>"]
  by (simp add: rootRejected_def prefixedRoot_def conformingRoot_def tei_el_def)

text \<open>
  C3, as stated, fails for the reduced validator (component \<open>App\<close>). For
  a root without children, where the header and the text are both missing, it
  returns the one combined message; for a root whose header and text are
  empty, where the file description and the body are missing, it reports
  success. The full validator names each missing element in both cases.
\<close>

theorem reduced_validator_counterexample:
  "reported (requiredElements emptyRoot) = [teiHeaderError, textError]
   \<and> TEIEditor_validate \<lparr>documentElement = Some emptyRoot\<rparr> = [teiHeaderError, textError]
   \<and> App_validate \<lparr>documentElement = Some emptyRoot\<rparr> = [combinedError]
   \<and> reported (requiredElements hollowRoot) = [fileDescError, bodyError]
   \<and> TEIEditor_validate \<lparr>documentElement = Some hollowRoot\<rparr> = [fileDescError, bodyError]
   \<and> App_validate \<lparr>documentElement = Some hollowRoot\<rparr> = [conformsMessage]"
  by (simp add: requiredElements_def reported_def sample_defs validate_defs TEI_NS_def)

text \<open>
  C3, amended. For a document whose root is \<open>TEI\<close>, the full validator
  (component \<open>TEIEditor\<close>) reports the message of each required element
  exactly when that element is missing under the nesting rules of the table;
  no message occurs twice, the messages of the required elements come in the
  order of the table, and the whole result is the list of the violated rules,
  or the conformance message when there is none. The reduced validator
  (component \<open>App\<close>) checks the top level only: its result is the
  namespace error, if any, and the one combined message exactly when the
  header or the text is missing below the root, or the conformance message
  when neither applies.
\<close>

theorem required_elements_reported:
  assumes "documentElement d = Some tei" and "tagName tei = Some ''TEI''"
  shows "(\<forall>(m, missing) \<in> set (requiredElements tei). m \<in> set (TEIEditor_validate d) \<longleftrightarrow> missing)
   \<and> distinct (TEIEditor_validate d)
   \<and> filter (\<lambda>m. m \<in> fst ` set (requiredElements tei)) (TEIEditor_validate d)
       = reported (requiredElements tei)
   \<and> TEIEditor_validate d
       = (if reported (nestingRules tei) = [] then [conformsMessage] else reported (nestingRules tei))
   \<and> App_validate d
       = (if reported (reducedRules tei) = [] then [conformsMessage] else reported (reducedRules tei))
   \<and> (combinedError \<in> set (App_validate d) \<longleftrightarrow>
        getElementsByTagName tei ''teiHeader'' = [] \<or> getElementsByTagName tei ''text'' = [])
   \<and> set (App_validate d) \<subseteq> {namespaceError, combinedError, conformsMessage}"
proof -
  let ?r = "reported (nestingRules tei)"
  have v: "TEIEditor_validate d = (if ?r = [] then [conformsMessage] else ?r)"
    by (rule TEIEditor_validate_TEI [OF assms])
  have d: "distinct (TEIEditor_validate d)"
    unfolding v using distinct_reported [OF nestingRules_distinct [of tei]] by simp
  have m: "m \<in> set (TEIEditor_validate d) \<longleftrightarrow> b" if "(m, b) \<in> set (requiredElements tei)" for m b
    using that by (rule rule_reported [OF assms])
  have f: "filter (\<lambda>m. m \<in> fst ` set (requiredElements tei)) (TEIEditor_validate d)
       = reported (requiredElements tei)"
    unfolding v by (rule filter_reported_required)
  have a: "App_validate d
       = (if reported (reducedRules tei) = [] then [conformsMessage] else reported (reducedRules tei))"
    by (rule App_validate_TEI [OF assms])
  have c: "combinedError \<in> set (App_validate d) \<longleftrightarrow>
        getElementsByTagName tei ''teiHeader'' = [] \<or> getElementsByTagName tei ''text'' = []"
    unfolding a using reduced_messages_distinct
    by (auto simp: reducedRules_def reducedRequired_def reported_Cons reported_Nil)
  have s: "set (App_validate d) \<subseteq> {namespaceError, combinedError, conformsMessage}"
    unfolding a by (auto simp: reducedRules_def reducedRequired_def reported_Cons reported_Nil)
  from m d f v a c s show ?thesis by blast
qed

theorem required_elements_reported_witness:
  "documentElement \<lparr>documentElement = Some sparseRoot\<rparr> = Some sparseRoot
   \<and> tagName sparseRoot = Some ''TEI''
   \<and> TEIEditor_validate \<lparr>documentElement = Some sparseRoot\<rparr>
       = [namespaceError, textError, inFileDescError ''publicationStmt'',
          inFileDescError ''sourceDesc'', titleError]
   \<and> reported (requiredElements sparseRoot)
       = [textError, inFileDescError ''publicationStmt'', inFileDescError ''sourceDesc'', titleError]
   \<and> App_validate \<lparr>documentElement = Some sparseRoot\<rparr> = [namespaceError, combinedError]
   \<and> getElementsByTagName sparseRoot ''text'' = []"
proof -
  have h: "documentElement \<lparr>documentElement = Some sparseRoot\<rparr> = Some sparseRoot"
    "tagName sparseRoot = Some ''TEI''"
    by (simp_all add: sparseRoot_def)
  have v: "TEIEditor_validate \<lparr>documentElement = Some sparseRoot\<rparr>
       = [namespaceError, textError, inFileDescError ''publicationStmt'',
          inFileDescError ''sourceDesc'', titleError]"
    by (simp add: sample_defs validate_defs)
  have a: "App_validate \<lparr>documentElement = Some sparseRoot\<rparr> = [namespaceError, combinedError]"
    by (simp add: sample_defs validate_defs)
  have g: "getElementsByTagName sparseRoot ''text'' = []"
    by (simp add: sample_defs validate_defs)
  have n: "namespaceError \<notin> fst ` set (requiredElements sparseRoot)"
    by (rule namespaceError_not_required)
  have e: "textError \<in> fst ` set (requiredElements sparseRoot)"
    "inFileDescError ''publicationStmt'' \<in> fst ` set (requiredElements sparseRoot)"
    "inFileDescError ''sourceDesc'' \<in> fst ` set (requiredElements sparseRoot)"
    "titleError \<in> fst ` set (requiredElements sparseRoot)"
    by (simp_all add: requiredElements_def Let_def)
  show ?thesis
    using required_elements_reported [OF h] h v a g n e by simp
qed

text \<open>
  C4 (success purity). For every parser and every input text, the list that
  \<open>validateTEI\<close> returns contains a success message if and only if it
  contains no error message; if it contains a success message it is exactly
  the one conformance message, and otherwise it is a non-empty list of error
  messages. This holds for both variants of the validator, and also when the
  parser throws.
\<close>

theorem success_purity:
  "successPurity (TEIEditor_validateTEI parseFromString x)
   \<and> successPurity (App_validateTEI parseFromString x)"
  by (simp add: TEIEditor_validateTEI_def App_validateTEI_def validationFailure_def
      pure_single_error TEIEditor_validate_pure App_validate_pure split: sum.splits)

theorem success_purity_witness:
  "TEIEditor_validateTEI (\<lambda>s. Inr \<lparr>documentElement = Some conformingRoot\<rparr>) ''x'' = [conformsMessage]
   \<and> successPurity [conformsMessage]
   \<and> TEIEditor_validateTEI (\<lambda>s. Inr \<lparr>documentElement = Some untitledRoot\<rparr>) ''x'' = [titleError]
   \<and> successPurity [titleError]"
  using success_purity [of "\<lambda>s. Inr \<lparr>documentElement = Some conformingRoot\<rparr>" "''x''"]
    success_purity [of "\<lambda>s. Inr \<lparr>documentElement = Some untitledRoot\<rparr>" "''x''"]
  by (simp add: sample_defs validate_defs)

text \<open>
  C8 (namespace). For a document whose root is \<open>TEI\<close> with a missing or
  different namespace URI, the result is the namespace error followed by the
  messages of the required-element checks, which are the error messages the
  same document yields once its root has the TEI namespace. This holds for
  both variants of the validator.
\<close>

theorem namespace_no_short_circuit:
  assumes "documentElement d = Some tei" and "tagName tei = Some ''TEI''"
    and "namespaceURI tei \<noteq> Some TEI_NS"
  shows "TEIEditor_validate d = namespaceError # reported (requiredElements tei)
   \<and> reported (requiredElements tei) =
       filter (\<lambda>m. mtype m = Error)
         (TEIEditor_validate \<lparr>documentElement = Some (setNamespaceURI (Some TEI_NS) tei)\<rparr>)
   \<and> App_validate d = namespaceError # reported (reducedRequired tei)
   \<and> reported (reducedRequired tei) =
       filter (\<lambda>m. mtype m = Error)
         (App_validate \<lparr>documentElement = Some (setNamespaceURI (Some TEI_NS) tei)\<rparr>)"
proof -
  let ?tei' = "setNamespaceURI (Some TEI_NS) tei"
  let ?d' = "\<lparr>documentElement = Some ?tei'\<rparr>"
  have t': "documentElement ?d' = Some ?tei'" "tagName ?tei' = Some ''TEI''"
    using assms(2) by (simp_all add: tagName_setNamespaceURI)
  have ns': "namespaceURI ?tei' = Some TEI_NS"
    using tagName_isElement [OF assms(2)] by (rule namespaceURI_setNamespaceURI)
  have a: "TEIEditor_validate d = namespaceError # reported (requiredElements tei)"
    using assms(3) by (simp add: TEIEditor_validate_TEI [OF assms(1,2)] nestingRules_def reported_Cons)
  have e: "\<forall>m \<in> fst ` set (requiredElements tei). mtype m = Error"
    using nestingRules_errors [of tei] by (simp add: nestingRules_def)
  have "TEIEditor_validate ?d' =
          (if reported (requiredElements tei) = [] then [conformsMessage]
           else reported (requiredElements tei))"
    using ns'
    by (simp add: TEIEditor_validate_TEI [OF t'] nestingRules_def reported_Cons
        requiredElements_setNamespaceURI)
  then have b: "reported (requiredElements tei) =
       filter (\<lambda>m. mtype m = Error) (TEIEditor_validate ?d')"
    using filter_errors_reported [OF e] by simp
  have c: "App_validate d = namespaceError # reported (reducedRequired tei)"
    using assms(3) by (simp add: App_validate_TEI [OF assms(1,2)] reducedRules_def reported_Cons)
  have tl': "reducedRequired ?tei' = reducedRequired tei"
    by (simp add: reducedRequired_def getElementsByTagName_def descendants_setNamespaceURI)
  have e2: "\<forall>m \<in> fst ` set (reducedRequired tei). mtype m = Error"
    using reducedRules_errors [of tei] by (simp add: reducedRules_def)
  have "App_validate ?d' =
          (if reported (reducedRequired tei) = [] then [conformsMessage]
           else reported (reducedRequired tei))"
    using ns' tl'
    by (simp add: App_validate_TEI [OF t'] reducedRules_def reported_Cons)
  then have d: "reported (reducedRequired tei) =
       filter (\<lambda>m. mtype m = Error) (App_validate ?d')"
    using filter_errors_reported [OF e2] by simp
  from a b c d show ?thesis by blast
qed

theorem namespace_no_short_circuit_witness:
  "documentElement \<lparr>documentElement = Some sparseRoot\<rparr> = Some sparseRoot
   \<and> tagName sparseRoot = Some ''TEI''
   \<and> namespaceURI sparseRoot \<noteq> Some TEI_NS
   \<and> TEIEditor_validate \<lparr>documentElement = Some sparseRoot\<rparr>
       = [namespaceError, textError, inFileDescError ''publicationStmt'',
          inFileDescError ''sourceDesc'', titleError]
   \<and> App_validate \<lparr>documentElement = Some sparseRoot\<rparr> = [namespaceError, combinedError]"
proof -
  have h: "documentElement \<lparr>documentElement = Some sparseRoot\<rparr> = Some sparseRoot"
    "tagName sparseRoot = Some ''TEI''" "namespaceURI sparseRoot \<noteq> Some TEI_NS"
    by (simp_all add: sparseRoot_def)
  have r: "reported (requiredElements sparseRoot)
       = [textError, inFileDescError ''publicationStmt'', inFileDescError ''sourceDesc'', titleError]"
    by (simp add: requiredElements_def reported_def sample_defs validate_defs)
  have r2: "reported (reducedRequired sparseRoot) = [combinedError]"
    by (simp add: reducedRequired_def reported_def sample_defs validate_defs)
  show ?thesis
    using namespace_no_short_circuit [OF h] h r r2 by simp
qed



section \<open>The history\<close>

lemma slice0_nonneg: "0 \<le> e \<Longrightarrow> slice0 xs e = take (nat e) xs"
  by (auto simp: slice0_def Let_def min_def)

lemma slice0_keep_one: "slice0 (xs @ y # ys) (int (length xs) + 1) = xs @ [y]"
proof -
  have "nat (int (length xs) + 1) = Suc (length xs)" by simp
  then show ?thesis by (simp add: slice0_nonneg)
qed

lemma index_last: "index (xs @ [y]) (int (length (xs @ [y])) - 1) = Some y"
  by (simp add: index_def)

lemma redo_at_end: "currentIndexRef st = int (length (historyRef st)) - 1 \<Longrightarrow> redo st = st"
  by (simp add: redo_def)

lemma redo_pow_at_end: "currentIndexRef st = int (length (historyRef st)) - 1 \<Longrightarrow> (redo ^^ n) st = st"
  by (induction n) (simp_all add: redo_at_end)

lemma addToHistory_history:
  "historyRef (addToHistory x st) = slice0 (historyRef st) (currentIndexRef st + 1) @ [x]"
  by (simp add: addToHistory_def Let_def)

lemma addToHistory_cursor:
  "currentIndexRef (addToHistory x st) = int (length (historyRef (addToHistory x st))) - 1"
  by (simp add: addToHistory_def Let_def)

lemma undo_history: "historyRef (undo st) = historyRef st"
  by (simp add: undo_def Let_def)

lemma undo_cursor: "0 < currentIndexRef st \<Longrightarrow> currentIndexRef (undo st) = currentIndexRef st - 1"
  by (simp add: undo_def Let_def)

text \<open>
  C7 (branch discard). From every state, \<open>addToHistory a\<close>,
  \<open>addToHistory b\<close>, \<open>undo\<close>, \<open>addToHistory c\<close> leave the log equal to
  the kept prefix followed by \<open>a\<close> and \<open>c\<close>, with the cursor on the last
  index, where \<open>c\<close> is stored; any number of \<open>redo\<close> calls afterwards
  leaves the state as it is, so \<open>b\<close> is not reached. For a cursor that is
  not negative, \<open>addToHistory\<close> keeps the positions up to the cursor and
  appends the new snapshot.
\<close>

theorem branch_discard:
  "historyRef (addToHistory c (undo (addToHistory b (addToHistory a st))))
     = slice0 (historyRef st) (currentIndexRef st + 1) @ [a, c]
   \<and> index (historyRef (addToHistory c (undo (addToHistory b (addToHistory a st)))))
        (currentIndexRef (addToHistory c (undo (addToHistory b (addToHistory a st))))) = Some c
   \<and> currentIndexRef (addToHistory c (undo (addToHistory b (addToHistory a st))))
       = int (length (historyRef (addToHistory c (undo (addToHistory b (addToHistory a st)))))) - 1
   \<and> (\<forall>n. (redo ^^ n) (addToHistory c (undo (addToHistory b (addToHistory a st))))
            = addToHistory c (undo (addToHistory b (addToHistory a st))))
   \<and> (0 \<le> currentIndexRef st \<longrightarrow>
        historyRef (addToHistory a st) = take (nat (currentIndexRef st) + 1) (historyRef st) @ [a])"
proof -
  let ?p = "slice0 (historyRef st) (currentIndexRef st + 1)"
  let ?s1 = "addToHistory a st"
  let ?s2 = "addToHistory b ?s1"
  let ?s3 = "undo ?s2"
  let ?s4 = "addToHistory c ?s3"
  have h1: "historyRef ?s1 = ?p @ [a]"
    by (rule addToHistory_history)
  have c1: "currentIndexRef ?s1 = int (length ?p)"
    by (simp add: addToHistory_cursor h1)
  have h2: "historyRef ?s2 = ?p @ [a, b]"
    by (simp add: addToHistory_history [of b] h1 c1 slice0_nonneg)
  have c2: "currentIndexRef ?s2 = int (length ?p) + 1"
    by (simp add: addToHistory_cursor [of b] h2)
  have h3: "historyRef ?s3 = ?p @ [a, b]"
    by (simp add: undo_history h2)
  have c3: "currentIndexRef ?s3 = int (length ?p)"
    by (simp add: undo_cursor c2)
  have h: "historyRef ?s4 = ?p @ [a, c]"
    by (simp add: addToHistory_history [of c] h3 c3 slice0_keep_one)
  have c: "currentIndexRef ?s4 = int (length (historyRef ?s4)) - 1"
    by (rule addToHistory_cursor)
  have i: "index (historyRef ?s4) (currentIndexRef ?s4) = Some c"
  proof -
    have "index ((?p @ [a]) @ [c]) (int (length ((?p @ [a]) @ [c])) - 1) = Some c"
      by (rule index_last)
    then show ?thesis unfolding c h by simp
  qed
  have r: "\<forall>n. (redo ^^ n) ?s4 = ?s4"
    using redo_pow_at_end [OF c] by blast
  have g: "0 \<le> currentIndexRef st \<longrightarrow>
        historyRef (addToHistory a st) = take (nat (currentIndexRef st) + 1) (historyRef st) @ [a]"
    by (simp add: addToHistory_history slice0_nonneg nat_add_distrib)
  from h i c r g show ?thesis by blast
qed

theorem branch_discard_witness:
  "historyRef (addToHistory ''c'' (undo (addToHistory ''b'' (addToHistory ''a'' (init ''x'')))))
     = [''x'', ''a'', ''c'']
   \<and> currentIndexRef (addToHistory ''c'' (undo (addToHistory ''b'' (addToHistory ''a'' (init ''x''))))) = 2
   \<and> (redo ^^ 3) (addToHistory ''c'' (undo (addToHistory ''b'' (addToHistory ''a'' (init ''x'')))))
       = addToHistory ''c'' (undo (addToHistory ''b'' (addToHistory ''a'' (init ''x''))))"
  using branch_discard [of "''c''" "''b''" "''a''" "init ''x''"]
  by (simp add: init_def slice0_def)

text \<open>
  C10 (undo and redo). \<open>undo\<close> and \<open>redo\<close> leave the history array
  and the messages as they are. When they act (cursor above 0 for
  \<open>undo\<close>, cursor below the last index for \<open>redo\<close>) the cursor moves
  by one and the buffer is set to what the history array holds at the new
  cursor; otherwise the state is unchanged. For a cursor inside the array that
  is the snapshot stored there.
\<close>

theorem undo_redo_frame:
  "historyRef (undo st) = historyRef st \<and> historyRef (redo st) = historyRef st
   \<and> validationMessages (undo st) = validationMessages st
   \<and> validationMessages (redo st) = validationMessages st
   \<and> (if currentIndexRef st > 0
       then currentIndexRef (undo st) = currentIndexRef st - 1
            \<and> xmlContent (undo st) = index (historyRef (undo st)) (currentIndexRef (undo st))
       else undo st = st)
   \<and> (if currentIndexRef st < int (length (historyRef st)) - 1
       then currentIndexRef (redo st) = currentIndexRef st + 1
            \<and> xmlContent (redo st) = index (historyRef (redo st)) (currentIndexRef (redo st))
       else redo st = st)
   \<and> (0 < currentIndexRef st \<and> currentIndexRef st < int (length (historyRef st)) \<longrightarrow>
        xmlContent (undo st) = Some (historyRef st ! nat (currentIndexRef st - 1)))
   \<and> (0 \<le> currentIndexRef st \<and> currentIndexRef st < int (length (historyRef st)) - 1 \<longrightarrow>
        xmlContent (redo st) = Some (historyRef st ! nat (currentIndexRef st + 1)))"
  by (simp add: undo_def redo_def Let_def index_def)

theorem undo_redo_frame_witness:
  "xmlContent (undo (addToHistory ''b'' (addToHistory ''a'' (init ''x'')))) = Some ''a''
   \<and> historyRef (undo (addToHistory ''b'' (addToHistory ''a'' (init ''x'')))) = [''x'', ''a'', ''b'']
   \<and> currentIndexRef (undo (addToHistory ''b'' (addToHistory ''a'' (init ''x'')))) = 1
   \<and> xmlContent (redo (undo (addToHistory ''b'' (addToHistory ''a'' (init ''x''))))) = Some ''b''
   \<and> historyRef (redo (undo (addToHistory ''b'' (addToHistory ''a'' (init ''x''))))) = [''x'', ''a'', ''b'']
   \<and> undo (init ''x'') = init ''x'' \<and> redo (init ''x'') = init ''x''"
  using undo_redo_frame [of "addToHistory ''b'' (addToHistory ''a'' (init ''x''))"]
    undo_redo_frame [of "undo (addToHistory ''b'' (addToHistory ''a'' (init ''x'')))"]
    undo_redo_frame [of "init ''x''"]
  by (simp add: init_def addToHistory_def slice0_def undo_def Let_def index_def)

section \<open>Formatting malformed input\<close>

text \<open>
  C6 (failed formatting). If parsing the buffer fails, by an exception or by
  a document with a \<open>parsererror\<close> element, \<open>formatXML\<close> leaves the
  buffer, the history array and the cursor as they are; the state changes in
  its messages only, which become one error message.
\<close>

theorem formatXML_failure_frame:
  assumes "parseFails parseFromString (domString (xmlContent st))"
  shows "xmlContent (formatXML parseFromString serializeToString st) = xmlContent st
   \<and> historyRef (formatXML parseFromString serializeToString st) = historyRef st
   \<and> currentIndexRef (formatXML parseFromString serializeToString st) = currentIndexRef st
   \<and> (\<exists>e. formatXML parseFromString serializeToString st = st\<lparr>validationMessages := [mk_error e]\<rparr>)"
  using assms
  by (auto simp: parseFails_def hasParserError_def formatXML_def split: sum.splits)

theorem formatXML_failure_frame_witness:
  "parseFails (\<lambda>s. Inr errorRootDoc) (domString (xmlContent (init ''<TEI><teiHeader></TEI>'')))
   \<and> xmlContent (formatXML (\<lambda>s. Inr errorRootDoc) (\<lambda>d. '''') (init ''<TEI><teiHeader></TEI>''))
       = Some ''<TEI><teiHeader></TEI>''
   \<and> historyRef (formatXML (\<lambda>s. Inr errorRootDoc) (\<lambda>d. '''') (init ''<TEI><teiHeader></TEI>''))
       = [''<TEI><teiHeader></TEI>'']
   \<and> currentIndexRef (formatXML (\<lambda>s. Inr errorRootDoc) (\<lambda>d. '''') (init ''<TEI><teiHeader></TEI>'')) = 0"
proof -
  have h: "parseFails (\<lambda>s. Inr errorRootDoc) (domString (xmlContent (init ''<TEI><teiHeader></TEI>'')))"
    by (simp add: parseFails_def hasParserError_def errorRootDoc_def doc_getElementsByTagName_def
        matchesName_def)
  show ?thesis
    using h formatXML_failure_frame [OF h, of "\<lambda>d. ''''"]
    by (simp add: init_def)
qed

section \<open>The normalisation pass is idempotent\<close>

text \<open>
  The three steps of the pass work line by line: no match of either regular
  expression contains a line feed, and trimming a line removes nothing between
  the \<open><\<close> and the \<open>>\<close> of a match. After the pass no \<open>>\<close>
  stands right before a \<open><\<close>, every match has its white space collapsed
  and every line is trimmed, so a second pass changes nothing.
\<close>

lemma isSpace_simps [simp]:
  "isSpace (CHR 0x0A)" "isSpace (CHR 0x20)"
  "\<not> isSpace (CHR ''<'')" "\<not> isSpace (CHR ''>'')" "\<not> isSpace (CHR ''/'')"
  by (simp_all add: isSpace_def)

lemma isLineTerminator_simps [simp]:
  "isLineTerminator (CHR 0x0A)" "\<not> isLineTerminator (CHR 0x20)"
  "\<not> isLineTerminator (CHR ''<'')" "\<not> isLineTerminator (CHR ''>'')"
  by (simp_all add: isLineTerminator_def)

subsection \<open>collapseSpaces\<close>

lemma collapseSpaces_append:
  "\<not> isSpace c \<Longrightarrow> collapseSpaces (xs @ c # ys) = collapseSpaces xs @ c # collapseSpaces ys"
proof (induction xs rule: collapseSpaces.induct)
  case 1
  then show ?case by simp
next
  case (2 x xs)
  then show ?case by (simp add: dropWhile_append3)
qed

lemma collapseSpaces_set: "set (collapseSpaces xs) \<subseteq> insert (CHR 0x20) (set xs)"
proof (induction xs rule: collapseSpaces.induct)
  case 1
  then show ?case by simp
next
  case (2 x xs)
  then show ?case using set_dropWhileD [of _ isSpace xs] by auto
qed

lemma collapseSpaces_head:
  "xs = [] \<or> \<not> isSpace (hd xs) \<Longrightarrow> dropWhile isSpace (collapseSpaces xs) = collapseSpaces xs"
  by (cases xs) auto

lemma collapseSpaces_idem: "collapseSpaces (collapseSpaces xs) = collapseSpaces xs"
proof (induction xs rule: collapseSpaces.induct)
  case 1
  then show ?case by simp
next
  case (2 x xs)
  show ?case
  proof (cases "isSpace x")
    case True
    have "dropWhile isSpace xs = [] \<or> \<not> isSpace (hd (dropWhile isSpace xs))"
      using hd_dropWhile [of isSpace xs] by blast
    then have "dropWhile isSpace (collapseSpaces (dropWhile isSpace xs)) = collapseSpaces (dropWhile isSpace xs)"
      by (rule collapseSpaces_head)
    then show ?thesis using True 2 by simp
  next
    case False
    then show ?thesis using 2 by simp
  qed
qed

subsection \<open>findClose\<close>

lemma findClose_Some_iff:
  "findClose ds = Some (inner, rest) \<longleftrightarrow>
     ds = inner @ CHR ''>'' # rest \<and> CHR ''>'' \<notin> set inner \<and> (\<forall>c \<in> set inner. \<not> isLineTerminator c)"
proof (induction ds arbitrary: inner)
  case Nil
  then show ?case by simp
next
  case (Cons d ds)
  show ?case
  proof (cases inner)
    case Nil
    then show ?thesis by (auto split: option.splits)
  next
    case (Cons i inner2)
    then show ?thesis using Cons.IH [of inner2] by (auto split: option.splits)
  qed
qed

lemma findClose_None_append:
  "findClose cs = None \<Longrightarrow> findClose ys = None \<Longrightarrow> findClose (cs @ ys) = None"
  by (induction cs) (auto split: if_splits option.splits)

lemma findClose_Some_append:
  "findClose cs = Some (inner, rest) \<Longrightarrow> findClose (cs @ ys) = Some (inner, rest @ ys)"
  by (simp add: findClose_Some_iff)

lemma findClose_no_gt: "CHR ''>'' \<notin> set ws \<Longrightarrow> findClose ws = None"
  by (induction ws) (auto split: option.splits)

subsection \<open>collapseTags\<close>

lemma collapseTags_match:
  "findClose cs = Some (inner, rest) \<Longrightarrow>
   collapseTags (CHR ''<'' # cs) = CHR ''<'' # collapseSpaces inner @ CHR ''>'' # collapseTags rest"
  by (simp add: collapseSpaces_append [of "CHR ''>''" inner "[]", simplified])

lemma collapseTags_nomatch:
  "findClose cs = None \<Longrightarrow> collapseTags (CHR ''<'' # cs) = CHR ''<'' # collapseTags cs"
  by simp

lemma collapseTags_other:
  "c \<noteq> CHR ''<'' \<Longrightarrow> collapseTags (c # cs) = c # collapseTags cs"
  by simp

lemma collapseTags_no_lt: "CHR ''<'' \<notin> set ws \<Longrightarrow> collapseTags ws = ws"
  by (induction ws) auto

lemma collapseTags_hd: "collapseTags (c # cs) = c # tl (collapseTags (c # cs))"
  by (cases "c = CHR ''<''"; cases "findClose cs") (auto simp del: collapseTags.simps simp add: collapseTags_match collapseTags_nomatch collapseTags_other)

lemma findClose_collapseTags_None:
  "findClose cs = None \<Longrightarrow> findClose (collapseTags cs) = None"
proof (induction cs)
  case Nil
  then show ?case by simp
next
  case (Cons d ds)
  from Cons.prems have d: "d \<noteq> CHR ''>''" by (auto split: if_splits)
  show ?case
  proof (cases "isLineTerminator d")
    case True
    then have "d \<noteq> CHR ''<''" by auto
    then show ?thesis using True d by (simp add: collapseTags_other del: collapseTags.simps)
  next
    case False
    with Cons.prems d have n: "findClose ds = None" by (auto split: if_splits option.splits)
    then have i: "findClose (collapseTags ds) = None" by (rule Cons.IH)
    show ?thesis
    proof (cases "d = CHR ''<''")
      case True
      then show ?thesis using n i by (simp add: collapseTags_nomatch del: collapseTags.simps)
    next
      case False
      then show ?thesis using i d \<open>\<not> isLineTerminator d\<close>
        by (simp add: collapseTags_other del: collapseTags.simps)
    qed
  qed
qed

lemma collapseTags_idem: "collapseTags (collapseTags v) = collapseTags v"
proof (induction v rule: collapseTags.induct)
  case 1
  then show ?case by simp
next
  case (2 c cs)
  show ?case
  proof (cases "c = CHR ''<''")
    case False
    then show ?thesis using 2 by (simp add: collapseTags_other del: collapseTags.simps)
  next
    case True
    show ?thesis
    proof (cases "findClose cs")
      case None
      then show ?thesis
        using True 2 findClose_collapseTags_None [OF None]
        by (simp add: collapseTags_nomatch del: collapseTags.simps)
    next
      case (Some p)
      obtain inner rest where p: "p = (inner, rest)" by (cases p)
      have f: "findClose cs = Some (inner, rest)" using Some p by simp
      then have i: "CHR ''>'' \<notin> set inner" "\<forall>c \<in> set inner. \<not> isLineTerminator c"
        by (simp_all add: findClose_Some_iff)
      have i': "CHR ''>'' \<notin> set (collapseSpaces inner)"
        "\<forall>c \<in> set (collapseSpaces inner). \<not> isLineTerminator c"
        using i collapseSpaces_set [of inner] by auto
      have f': "findClose (collapseSpaces inner @ CHR ''>'' # collapseTags rest)
                  = Some (collapseSpaces inner, collapseTags rest)"
        using i' by (simp add: findClose_Some_iff)
      have ih: "collapseTags (collapseTags rest) = collapseTags rest"
        using 2 True f by blast
      show ?thesis
        unfolding True collapseTags_match [OF f] collapseTags_match [OF f']
        by (simp add: collapseSpaces_idem ih)
    qed
  qed
qed

lemma collapseTags_line:
  "CHR 0x0A \<notin> set l \<Longrightarrow>
   collapseTags (l @ CHR 0x0A # r) = collapseTags l @ CHR 0x0A # collapseTags r"
proof (induction l rule: collapseTags.induct)
  case 1
  then show ?case by simp
next
  case (2 c cs)
  from 2(4) have c: "c \<noteq> CHR 0x0A" and cs: "CHR 0x0A \<notin> set cs" by auto
  show ?case
  proof (cases "c = CHR ''<''")
    case False
    then show ?thesis using 2 cs by (simp add: collapseTags_other del: collapseTags.simps)
  next
    case True
    show ?thesis
    proof (cases "findClose cs")
      case None
      have "findClose (cs @ CHR 0x0A # r) = None"
        using None by (rule findClose_None_append) simp
      then show ?thesis using True None 2 cs
        by (simp add: collapseTags_nomatch del: collapseTags.simps)
    next
      case (Some p)
      obtain inner rest where p: "p = (inner, rest)" by (cases p)
      have f: "findClose cs = Some (inner, rest)" using Some p by simp
      then have "cs = inner @ CHR ''>'' # rest" by (simp add: findClose_Some_iff)
      then have r: "CHR 0x0A \<notin> set rest" using cs by auto
      have ih: "collapseTags (rest @ CHR 0x0A # r) = collapseTags rest @ CHR 0x0A # collapseTags r"
        using 2 True f r by blast
      show ?thesis
        using True ih
        by (simp add: collapseTags_match [OF f] collapseTags_match [OF findClose_Some_append [OF f]]
            del: collapseTags.simps)
    qed
  qed
qed

lemma collapseTags_spaces:
  "\<forall>c \<in> set ws. isSpace c \<Longrightarrow> collapseTags (xs @ ws) = collapseTags xs @ ws"
proof (induction xs rule: collapseTags.induct)
  case 1
  have "CHR ''<'' \<notin> set ws" using 1 by auto
  then show ?case by (simp add: collapseTags_no_lt)
next
  case (2 c cs)
  have w: "CHR ''>'' \<notin> set ws" using 2(4) by auto
  show ?case
  proof (cases "c = CHR ''<''")
    case False
    then show ?thesis using 2 by (simp add: collapseTags_other del: collapseTags.simps)
  next
    case True
    show ?thesis
    proof (cases "findClose cs")
      case None
      have "findClose (cs @ ws) = None"
        using None findClose_no_gt [OF w] by (rule findClose_None_append)
      then show ?thesis using True None 2
        by (simp add: collapseTags_nomatch del: collapseTags.simps)
    next
      case (Some p)
      obtain inner rest where p: "p = (inner, rest)" by (cases p)
      have f: "findClose cs = Some (inner, rest)" using Some p by simp
      have ih: "collapseTags (rest @ ws) = collapseTags rest @ ws"
        using 2 True f by blast
      show ?thesis
        using True ih
        by (simp add: collapseTags_match [OF f] collapseTags_match [OF findClose_Some_append [OF f]]
            del: collapseTags.simps)
    qed
  qed
qed

lemma collapseTags_fixed_dropWhile:
  "collapseTags l = l \<Longrightarrow> collapseTags (dropWhile isSpace l) = dropWhile isSpace l"
proof (induction l)
  case Nil
  then show ?case by simp
next
  case (Cons c cs)
  show ?case
  proof (cases "isSpace c")
    case True
    then have "c \<noteq> CHR ''<''" by auto
    then have "collapseTags cs = cs" using Cons.prems by simp
    then show ?thesis using True Cons.IH by simp
  next
    case False
    then show ?thesis using Cons.prems by simp
  qed
qed

lemma rev_dropWhile_rev:
  "\<exists>ws. l = rev (dropWhile P (rev l)) @ ws \<and> (\<forall>c \<in> set ws. P c)"
proof -
  have "rev l = takeWhile P (rev l) @ dropWhile P (rev l)" by simp
  then have "l = rev (dropWhile P (rev l)) @ rev (takeWhile P (rev l))"
    by (metis rev_append rev_rev_ident)
  moreover have "\<forall>c \<in> set (rev (takeWhile P (rev l))). P c"
    by (auto dest: set_takeWhileD)
  ultimately show ?thesis by blast
qed

lemma collapseTags_fixed_trim: "collapseTags l = l \<Longrightarrow> collapseTags (trim l) = trim l"
proof -
  assume a: "collapseTags l = l"
  let ?a = "dropWhile isSpace l"
  have 1: "collapseTags ?a = ?a" using a by (rule collapseTags_fixed_dropWhile)
  obtain ws where ws: "?a = rev (dropWhile isSpace (rev ?a)) @ ws" "\<forall>c \<in> set ws. isSpace c"
    using rev_dropWhile_rev [of ?a isSpace] by blast
  have "collapseTags (rev (dropWhile isSpace (rev ?a)) @ ws)
          = collapseTags (rev (dropWhile isSpace (rev ?a))) @ ws"
    using ws(2) by (rule collapseTags_spaces)
  then have "collapseTags (rev (dropWhile isSpace (rev ?a))) @ ws = rev (dropWhile isSpace (rev ?a)) @ ws"
    using 1 ws(1) by metis
  then show ?thesis by (simp add: trim_def)
qed

subsection \<open>Lines\<close>

lemma splitLines_nonempty: "splitLines s \<noteq> []"
  by (induction s) (auto split: list.splits)

lemma joinLines_Cons: "ls \<noteq> [] \<Longrightarrow> joinLines (l # ls) = l @ CHR 0x0A # joinLines ls"
  by (cases ls) simp_all

lemma joinLines_splitLines: "joinLines (splitLines s) = s"
proof (induction s)
  case Nil
  then show ?case by simp
next
  case (Cons c cs)
  show ?case
  proof (cases "c = CHR 0x0A")
    case True
    then show ?thesis using Cons splitLines_nonempty [of cs] by (simp add: joinLines_Cons)
  next
    case False
    obtain l ls where s: "splitLines cs = l # ls"
      using splitLines_nonempty [of cs] by (cases "splitLines cs") auto
    then show ?thesis using False Cons by (cases ls) simp_all
  qed
qed

lemma splitLines_no_newline: "\<forall>l \<in> set (splitLines s). CHR 0x0A \<notin> set l"
  by (induction s) (auto split: list.splits)

lemma splitLines_line: "CHR 0x0A \<notin> set l \<Longrightarrow> splitLines (l @ CHR 0x0A # r) = l # splitLines r"
  by (induction l) auto

lemma splitLines_single: "CHR 0x0A \<notin> set l \<Longrightarrow> splitLines l = [l]"
  by (induction l) auto

lemma splitLines_joinLines:
  "ls \<noteq> [] \<Longrightarrow> \<forall>l \<in> set ls. CHR 0x0A \<notin> set l \<Longrightarrow> splitLines (joinLines ls) = ls"
proof (induction ls rule: joinLines.induct)
  case 1
  then show ?case by simp
next
  case (2 l)
  then show ?case by (simp add: splitLines_single)
next
  case (3 l v va)
  then show ?case by (simp add: splitLines_line)
qed

lemma joinLines_map:
  assumes f: "\<And>l r. CHR 0x0A \<notin> set l \<Longrightarrow> f (l @ CHR 0x0A # r) = f l @ CHR 0x0A # f r"
  shows "ls \<noteq> [] \<Longrightarrow> \<forall>l \<in> set ls. CHR 0x0A \<notin> set l \<Longrightarrow> f (joinLines ls) = joinLines (map f ls)"
proof (induction ls rule: joinLines.induct)
  case 1
  then show ?case by simp
next
  case (2 l)
  then show ?case by simp
next
  case (3 l v va)
  then show ?case by (simp add: f)
qed

lemma map_fixed: "map f ls = ls \<Longrightarrow> \<forall>l \<in> set ls. f l = l"
  by (induction ls) auto

lemma collapseTags_set: "set (collapseTags v) \<subseteq> insert (CHR 0x20) (set v)"
proof (induction v rule: collapseTags.induct)
  case 1
  then show ?case by simp
next
  case (2 c cs)
  show ?case
  proof (cases "c = CHR ''<''")
    case False
    then show ?thesis using 2 by (auto simp add: collapseTags_other simp del: collapseTags.simps)
  next
    case True
    show ?thesis
    proof (cases "findClose cs")
      case None
      then show ?thesis using True 2 by (auto simp add: collapseTags_nomatch simp del: collapseTags.simps)
    next
      case (Some p)
      obtain inner rest where p: "p = (inner, rest)" by (cases p)
      have f: "findClose cs = Some (inner, rest)" using Some p by simp
      then have cs: "cs = inner @ CHR ''>'' # rest" by (simp add: findClose_Some_iff)
      have ih: "set (collapseTags rest) \<subseteq> insert (CHR 0x20) (set rest)"
        using 2 True f by blast
      have e: "collapseTags (c # cs) = CHR ''<'' # collapseSpaces inner @ CHR ''>'' # collapseTags rest"
        using True collapseTags_match [OF f] by simp
      have "set (c # cs) = insert (CHR ''<'') (insert (CHR ''>'') (set inner \<union> set rest))"
        using True cs by auto
      then show ?thesis
        using ih collapseSpaces_set [of inner] unfolding e by auto
    qed
  qed
qed

lemma collapseTags_fixed_lines:
  assumes "collapseTags u = u"
  shows "\<forall>l \<in> set (splitLines u). collapseTags l = l"
proof -
  let ?ls = "splitLines u"
  have n: "?ls \<noteq> []" "\<forall>l \<in> set ?ls. CHR 0x0A \<notin> set l"
    using splitLines_nonempty splitLines_no_newline by auto
  have "collapseTags (joinLines ?ls) = joinLines (map collapseTags ?ls)"
    using collapseTags_line n by (rule joinLines_map)
  then have j: "joinLines (map collapseTags ?ls) = joinLines ?ls"
    using assms by (simp add: joinLines_splitLines)
  have m: "map collapseTags ?ls \<noteq> []" "\<forall>l \<in> set (map collapseTags ?ls). CHR 0x0A \<notin> set l"
    using n collapseTags_set by auto
  have "map collapseTags ?ls = splitLines (joinLines (map collapseTags ?ls))"
    using splitLines_joinLines [OF m] by simp
  also have "\<dots> = ?ls" unfolding j using splitLines_joinLines [OF n] by simp
  finally show ?thesis by (rule map_fixed)
qed

subsection \<open>Adjacent tags\<close>

lemma noAdj_Cons:
  "noAdj (c # cs) \<longleftrightarrow> \<not> (c = CHR ''>'' \<and> cs \<noteq> [] \<and> hd cs = CHR ''<'') \<and> noAdj cs"
  by (cases cs) auto

lemma noAdj_append:
  "noAdj (xs @ ys) \<longleftrightarrow>
     noAdj xs \<and> noAdj ys \<and> \<not> (xs \<noteq> [] \<and> ys \<noteq> [] \<and> last xs = CHR ''>'' \<and> hd ys = CHR ''<'')"
proof (induction xs rule: noAdj.induct)
  case 1
  then show ?case by simp
next
  case (2 c)
  then show ?case by (cases ys) auto
next
  case (3 c d cs)
  then show ?case by auto
qed

lemma noAdj_no_gt: "CHR ''>'' \<notin> set xs \<Longrightarrow> noAdj (xs @ ys) \<longleftrightarrow> noAdj ys"
  by (induction xs) (auto simp: noAdj_Cons)

lemma breakTags_Cons: "\<exists>zs. breakTags (c # cs) = c # zs"
  by (cases cs) auto

lemma breakTags_hd: "breakTags cs \<noteq> [] \<and> hd (breakTags cs) = hd cs" if "cs \<noteq> []"
  using that breakTags_Cons [of "hd cs" "tl cs"] by auto

lemma noAdj_breakTags: "noAdj (breakTags t)"
proof (induction t rule: breakTags.induct)
  case 1
  then show ?case by simp
next
  case (2 c)
  then show ?case by simp
next
  case (3 c d cs)
  show ?case
  proof (cases "c = CHR ''>'' \<and> d = CHR ''<''")
    case True
    let ?sl = "takeWhile (\<lambda>x. x = CHR ''/'') cs"
    have "CHR ''>'' \<notin> set (CHR 0x0A # CHR ''<'' # ?sl)"
      by (auto dest: set_takeWhileD)
    then have "noAdj ((CHR 0x0A # CHR ''<'' # ?sl) @ breakTags (dropWhile (\<lambda>x. x = CHR ''/'') cs))"
      using 3(1) [OF True] noAdj_no_gt by blast
    then show ?thesis using True by (simp add: noAdj_Cons)
  next
    case False
    obtain zs where z: "breakTags (d # cs) = d # zs" using breakTags_Cons by blast
    then show ?thesis using False 3(2) [OF False] by (auto simp: noAdj_Cons)
  qed
qed

lemma breakTags_fixed: "noAdj w \<Longrightarrow> breakTags w = w"
  by (induction w rule: breakTags.induct) auto

lemma collapseTags_Cons: "\<exists>zs. collapseTags (c # cs) = c # zs"
  using collapseTags_hd by blast

lemma noAdj_collapseTags: "noAdj v \<Longrightarrow> noAdj (collapseTags v)"
proof (induction v rule: collapseTags.induct)
  case 1
  then show ?case by simp
next
  case (2 c cs)
  have hd: "ys \<noteq> [] \<Longrightarrow> collapseTags ys \<noteq> [] \<and> hd (collapseTags ys) = hd ys" for ys
    using collapseTags_Cons [of "hd ys" "tl ys"] by auto
  from 2(4) have ncs: "noAdj cs" by (simp add: noAdj_Cons)
  show ?case
  proof (cases "c = CHR ''<''")
    case False
    have "noAdj (collapseTags cs)" using 2 False ncs by blast
    moreover have "\<not> (c = CHR ''>'' \<and> collapseTags cs \<noteq> [] \<and> hd (collapseTags cs) = CHR ''<'')"
      using 2(4) hd [of cs] by (cases cs) (auto simp: noAdj_Cons)
    ultimately show ?thesis using False
      by (simp add: collapseTags_other noAdj_Cons del: collapseTags.simps)
  next
    case True
    show ?thesis
    proof (cases "findClose cs")
      case None
      then have "noAdj (collapseTags cs)" using 2 True ncs by blast
      then show ?thesis using True None
        by (simp add: collapseTags_nomatch noAdj_Cons del: collapseTags.simps)
    next
      case (Some p)
      obtain inner rest where p: "p = (inner, rest)" by (cases p)
      have f: "findClose cs = Some (inner, rest)" using Some p by simp
      then have cs: "cs = inner @ CHR ''>'' # rest" and i: "CHR ''>'' \<notin> set inner"
        by (simp_all add: findClose_Some_iff)
      have nr: "noAdj (CHR ''>'' # rest)" using ncs cs by (simp add: noAdj_append)
      then have "noAdj rest" by (simp add: noAdj_Cons)
      then have ih: "noAdj (collapseTags rest)" using 2 True f by blast
      have g: "noAdj (CHR ''>'' # collapseTags rest)"
        using ih nr hd [of rest] by (cases rest) (auto simp: noAdj_Cons)
      have "CHR ''>'' \<notin> set (CHR ''<'' # collapseSpaces inner)"
        using i collapseSpaces_set [of inner] by auto
      then have "noAdj ((CHR ''<'' # collapseSpaces inner) @ CHR ''>'' # collapseTags rest)"
        using g noAdj_no_gt by blast
      then show ?thesis using True by (simp add: collapseTags_match [OF f] del: collapseTags.simps)
    qed
  qed
qed

lemma noAdj_joinLines: "noAdj (joinLines ls) \<longleftrightarrow> (\<forall>l \<in> set ls. noAdj l)"
proof (induction ls rule: joinLines.induct)
  case 1
  then show ?case by simp
next
  case (2 l)
  then show ?case by simp
next
  case (3 l v va)
  have "noAdj (l @ CHR 0x0A # joinLines (v # va)) \<longleftrightarrow> noAdj l \<and> noAdj (joinLines (v # va))"
    by (auto simp: noAdj_append noAdj_Cons)
  then show ?case using 3 by simp
qed

lemma noAdj_trim: "noAdj l \<Longrightarrow> noAdj (trim l)"
proof -
  assume a: "noAdj l"
  let ?a = "dropWhile isSpace l"
  have "l = takeWhile isSpace l @ ?a" by simp
  then have 1: "noAdj ?a" using a noAdj_append [of "takeWhile isSpace l" ?a] by simp
  obtain ws where ws: "?a = rev (dropWhile isSpace (rev ?a)) @ ws"
    using rev_dropWhile_rev [of ?a isSpace] by blast
  then have "noAdj (rev (dropWhile isSpace (rev ?a)))"
    using 1 noAdj_append [of "rev (dropWhile isSpace (rev ?a))" ws] by simp
  then show ?thesis by (simp add: trim_def)
qed

subsection \<open>The whole pass\<close>

lemma trim_subset: "set (trim l) \<subseteq> set l"
proof
  fix x
  assume "x \<in> set (trim l)"
  then have "x \<in> set (dropWhile isSpace (rev (dropWhile isSpace l)))" by (simp add: trim_def)
  then have "x \<in> set (rev (dropWhile isSpace l))" by (rule set_dropWhileD)
  then have "x \<in> set (dropWhile isSpace l)" by simp
  then show "x \<in> set l" by (rule set_dropWhileD)
qed

lemma trim_no_newline: "CHR 0x0A \<notin> set l \<Longrightarrow> CHR 0x0A \<notin> set (trim l)"
  using trim_subset [of l] by auto

lemma trim_idem: "trim (trim l) = trim l"
proof -
  let ?a = "dropWhile isSpace l"
  let ?b = "rev (dropWhile isSpace (rev ?a))"
  obtain ws where ws: "?a = ?b @ ws" using rev_dropWhile_rev [of ?a isSpace] by blast
  have "dropWhile isSpace b = b" if b: "?a = b @ ws" for b
  proof (cases b)
    case Nil
    then show ?thesis by simp
  next
    case (Cons x xs)
    then have "hd ?a = x" "?a \<noteq> []" using b by simp_all
    then have "\<not> isSpace x" using hd_dropWhile [of isSpace l] by auto
    then show ?thesis using Cons by simp
  qed
  from this [OF ws] have "dropWhile isSpace ?b = ?b" .
  then show ?thesis by (simp add: trim_def dropWhile_idem)
qed

lemma normalise_noAdj: "noAdj (normalise t)"
proof -
  have "noAdj (collapseTags (breakTags t))"
    using noAdj_breakTags by (rule noAdj_collapseTags)
  then have "noAdj (joinLines (splitLines (collapseTags (breakTags t))))"
    by (simp add: joinLines_splitLines)
  then have "\<forall>l \<in> set (splitLines (collapseTags (breakTags t))). noAdj l"
    by (simp only: noAdj_joinLines)
  then show ?thesis
    by (simp add: normalise_def noAdj_joinLines noAdj_trim)
qed

lemma normalise_collapsed: "collapseTags (normalise t) = normalise t"
proof -
  let ?u = "collapseTags (breakTags t)"
  let ?ls = "map trim (splitLines ?u)"
  have f: "\<forall>l \<in> set (splitLines ?u). collapseTags l = l"
    using collapseTags_idem by (rule collapseTags_fixed_lines)
  have n: "?ls \<noteq> []" "\<forall>l \<in> set ?ls. CHR 0x0A \<notin> set l"
    using splitLines_nonempty splitLines_no_newline trim_no_newline by auto
  have "collapseTags (joinLines ?ls) = joinLines (map collapseTags ?ls)"
    using collapseTags_line n by (rule joinLines_map)
  also have "map collapseTags ?ls = ?ls"
    using f by (simp add: collapseTags_fixed_trim)
  finally show ?thesis by (simp add: normalise_def)
qed

lemma normalise_idempotent: "normalise (normalise t) = normalise t"
proof -
  let ?ls = "map trim (splitLines (collapseTags (breakTags t)))"
  have n: "?ls \<noteq> []" "\<forall>l \<in> set ?ls. CHR 0x0A \<notin> set l"
    using splitLines_nonempty splitLines_no_newline trim_no_newline by auto
  have j: "normalise t = joinLines ?ls" by (simp add: normalise_def)
  have "collapseTags (breakTags (normalise t)) = normalise t"
    by (simp add: breakTags_fixed [OF normalise_noAdj] normalise_collapsed)
  then have "normalise (normalise t) = joinLines (map trim (splitLines (normalise t)))"
    by (simp add: normalise_def [of "normalise t"])
  also have "splitLines (normalise t) = ?ls"
    unfolding j using n by (rule splitLines_joinLines)
  also have "map trim ?ls = ?ls" by (simp add: trim_idem)
  finally show ?thesis using j by simp
qed

text \<open>
  Two calls of \<open>formatXML\<close> in a row. The second call parses the text
  the first one wrote. If both parses succeed and the serialiser gives, for the
  second document, a text with the same normal form as the buffer it was
  parsed from, the second call leaves the buffer as the first one wrote it.
  Whether the parser and serialiser of the browser do so for every document
  is outside this program.
\<close>

lemma formatXML_twice:
  assumes "parseFromString (domString (xmlContent st)) = Inr d"
    and "\<not> hasParserError d"
    and "parseFromString (normalise (serializeToString d)) = Inr d'"
    and "\<not> hasParserError d'"
    and "normalise (serializeToString d') = normalise (normalise (serializeToString d))"
  shows "xmlContent (formatXML parseFromString serializeToString
            (formatXML parseFromString serializeToString st))
         = xmlContent (formatXML parseFromString serializeToString st)"
proof -
  let ?f = "normalise (serializeToString d)"
  have 1: "xmlContent (formatXML parseFromString serializeToString st) = Some ?f"
    using assms(1,2) by (simp add: formatXML_def hasParserError_def addToHistory_def Let_def)
  have "xmlContent (formatXML parseFromString serializeToString
            (formatXML parseFromString serializeToString st))
         = Some (normalise (serializeToString d'))"
    using assms(3,4) 1
    by (simp add: formatXML_def [of _ _ "formatXML parseFromString serializeToString st"]
        hasParserError_def addToHistory_def Let_def domString_def)
  then show ?thesis using 1 assms(5) by (simp add: normalise_idempotent)
qed

end
